theory Spec2Isabelle
  imports
    Complex_Main
    "HOL-Library.Char_ord"
    "HOL-Library.List_Lexorder"
    "HOL-Library.Product_Lexorder"
begin

section \<open>Python values, documents and library functions\<close>

text \<open>
  A Firestore document of the collection \<^verbatim>\<open>Jobs\<close> is a document id and a dictionary.
  The scraper writes string values only; a field can also hold \<^verbatim>\<open>None\<close>, which
  \<^verbatim>\<open>parse_date_safe\<close> anticipates with \<^verbatim>\<open>(s or "")\<close>. Other value types are not
  modelled. Strings are byte strings (UTF-8), whose lexicographic order is Python's
  code point order.
\<close>

datatype pyval = PyNone | PyStr string

type_synonym pydict = "string \<rightharpoonup> pyval"

record doc =
  doc_id :: string
  doc_data :: pydict

datatype py_error = AttributeError | ValueError | StoreError | OverflowError

text \<open>\<^verbatim>\<open>d.get(k)\<close> and \<^verbatim>\<open>d.get(k, default)\<close>.\<close>

definition dict_get :: "pydict \<Rightarrow> string \<Rightarrow> pyval" where
  "dict_get d k = (case d k of None \<Rightarrow> PyNone | Some v \<Rightarrow> v)"

definition dict_get_default :: "pydict \<Rightarrow> string \<Rightarrow> pyval \<Rightarrow> pyval" where
  "dict_get_default d k dflt = (case d k of None \<Rightarrow> dflt | Some v \<Rightarrow> v)"

text \<open>\<^verbatim>\<open>(v or "")\<close> for a value that is \<^verbatim>\<open>None\<close> or a string.\<close>

definition or_empty :: "pyval \<Rightarrow> string" where
  "or_empty v = (case v of PyNone \<Rightarrow> [] | PyStr s \<Rightarrow> s)"

text \<open>
  \<^verbatim>\<open>str.strip()\<close> on ASCII text: the characters Python counts as white space below
  128 are 9 to 13 and 28 to 32.
\<close>

definition is_space :: "char \<Rightarrow> bool" where
  "is_space c = (let n = (of_char c :: nat) in (9 \<le> n \<and> n \<le> 13) \<or> (28 \<le> n \<and> n \<le> 32))"

definition strip :: "string \<Rightarrow> string" where
  "strip s = rev (dropWhile is_space (rev (dropWhile is_space s)))"

text \<open>\<^verbatim>\<open>str.upper()\<close> on ASCII text.\<close>

definition upper_char :: "char \<Rightarrow> char" where
  "upper_char c = (let n = (of_char c :: nat) in if 97 \<le> n \<and> n \<le> 122 then char_of (n - 32) else c)"

definition upper :: "string \<Rightarrow> string" where
  "upper s = map upper_char s"

subsection \<open>Dates\<close>

text \<open>
  A \<^verbatim>\<open>datetime.date\<close> is represented by its proleptic Gregorian ordinal
  (\<^verbatim>\<open>date.toordinal()\<close>): dates compare as their ordinals do, and subtracting
  \<^verbatim>\<open>timedelta(days=n)\<close> subtracts \<open>n\<close>. The functions below follow the standard
  library's \<^verbatim>\<open>_ymd2ord\<close>.
\<close>

definition is_leap :: "int \<Rightarrow> bool" where
  "is_leap y = (y mod 4 = 0 \<and> (y mod 100 \<noteq> 0 \<or> y mod 400 = 0))"

definition days_in_month :: "int \<Rightarrow> int \<Rightarrow> int" where
  "days_in_month y m =
     (if m = 2 then (if is_leap y then 29 else 28)
      else if m = 4 \<or> m = 6 \<or> m = 9 \<or> m = 11 then 30 else 31)"

definition days_before_year :: "int \<Rightarrow> int" where
  "days_before_year y = (y - 1) * 365 + (y - 1) div 4 - (y - 1) div 100 + (y - 1) div 400"

definition days_before_month :: "int \<Rightarrow> int \<Rightarrow> int" where
  "days_before_month y m =
     [0, 31, 59, 90, 120, 151, 181, 212, 243, 273, 304, 334] ! nat (m - 1)
       + (if m > 2 \<and> is_leap y then 1 else 0)"

definition ymd2ord :: "int \<Rightarrow> int \<Rightarrow> int \<Rightarrow> int" where
  "ymd2ord y m d = days_before_year y + days_before_month y m + d"

text \<open>\<^verbatim>\<open>date.max\<close> is 9999-12-31.\<close>

definition date_max :: int where
  "date_max = ymd2ord 9999 12 31"

text \<open>
  \<^verbatim>\<open>datetime.strptime(s, "%Y-%m-%d")\<close>, with \<open>None\<close> for the \<^verbatim>\<open>ValueError\<close> it raises.
  The library matches the regular expression
  \<^verbatim>\<open>(\d\d\d\d)-(1[0-2]|0[1-9]|[1-9])-(3[0-1]|[1-2]\d|0[1-9]|[1-9]| [1-9])\<close>
  at the start of the string, refuses text left over after the match, and then
  refuses a year, month and day that are not a date (year 0, 30 February).
  Only ASCII digits are modelled.
\<close>

definition is_digit :: "char \<Rightarrow> bool" where
  "is_digit c = (CHR ''0'' \<le> c \<and> c \<le> CHR ''9'')"

definition is_digit19 :: "char \<Rightarrow> bool" where
  "is_digit19 c = (CHR ''1'' \<le> c \<and> c \<le> CHR ''9'')"

definition digit_val :: "char \<Rightarrow> int" where
  "digit_val c = int (of_char c) - 48"

text \<open>The month and the hyphen after it; returns the month and the rest.\<close>

fun parse_month :: "string \<Rightarrow> (int \<times> string) option" where
  "parse_month (a # b # c # rest) =
     (if a = CHR ''1'' \<and> (b = CHR ''0'' \<or> b = CHR ''1'' \<or> b = CHR ''2'') \<and> c = CHR ''-''
        then Some (10 + digit_val b, rest)
      else if a = CHR ''0'' \<and> is_digit19 b \<and> c = CHR ''-'' then Some (digit_val b, rest)
      else if is_digit19 a \<and> b = CHR ''-'' then Some (digit_val a, c # rest)
      else None)"
| "parse_month [a, b] = (if is_digit19 a \<and> b = CHR ''-'' then Some (digit_val a, []) else None)"
| "parse_month _ = None"

text \<open>The day, which must be all that is left.\<close>

fun parse_day :: "string \<Rightarrow> int option" where
  "parse_day [a, b] =
     (if a = CHR ''3'' \<and> (b = CHR ''0'' \<or> b = CHR ''1'') then Some (30 + digit_val b)
      else if (a = CHR ''1'' \<or> a = CHR ''2'') \<and> is_digit b then Some (10 * digit_val a + digit_val b)
      else if a = CHR ''0'' \<and> is_digit19 b then Some (digit_val b)
      else if a = CHR '' '' \<and> is_digit19 b then Some (digit_val b)
      else None)"
| "parse_day [a] = (if is_digit19 a then Some (digit_val a) else None)"
| "parse_day _ = None"

definition make_date :: "int \<Rightarrow> int \<Rightarrow> int \<Rightarrow> int option" where
  "make_date y m d =
     (if 1 \<le> y \<and> y \<le> 9999 \<and> 1 \<le> m \<and> m \<le> 12 \<and> 1 \<le> d \<and> d \<le> days_in_month y m
      then Some (ymd2ord y m d) else None)"

fun strptime_ymd :: "string \<Rightarrow> int option" where
  "strptime_ymd (y1 # y2 # y3 # y4 # h # rest) =
     (if is_digit y1 \<and> is_digit y2 \<and> is_digit y3 \<and> is_digit y4 \<and> h = CHR ''-'' then
        (case parse_month rest of
           None \<Rightarrow> None
         | Some (m, rest') \<Rightarrow>
             (case parse_day rest' of
                None \<Rightarrow> None
              | Some d \<Rightarrow>
                  make_date (1000 * digit_val y1 + 100 * digit_val y2 + 10 * digit_val y3 + digit_val y4) m d))
      else None)"
| "strptime_ymd _ = None"

section \<open>cleanup\_jobs.py\<close>

text \<open>
  \<^verbatim>\<open>parse_date_safe\<close>: the stripped text, nothing for an empty text, the parsed date,
  nothing when \<^verbatim>\<open>strptime\<close> raises.
\<close>

definition parse_date_safe :: "pyval \<Rightarrow> int option" where
  "parse_date_safe s = (let s' = strip (or_empty s) in if s' = [] then None else strptime_ymd s')"

text \<open>The dictionary \<^verbatim>\<open>info\<close> that \<^verbatim>\<open>main\<close> builds for each document (without the reference).\<close>

record info =
  info_id :: string
  info_date :: "int option"
  info_date_str :: pyval
  info_link :: string
  info_is_recent :: bool

definition mk_info :: "int \<Rightarrow> doc \<Rightarrow> info" where
  "mk_info cutoff_recent d =
     (let dat = doc_data d;
          dp_str = dict_get_default dat ''date-posted'' (PyStr []);
          more_info = strip (or_empty (dict_get dat ''moreInfoLink''));
          dp = parse_date_safe dp_str;
          is_recent = (case dp of None \<Rightarrow> False | Some x \<Rightarrow> x \<ge> cutoff_recent)
      in \<lparr> info_id = doc_id d, info_date = dp, info_date_str = dp_str,
           info_link = more_info, info_is_recent = is_recent \<rparr>)"

text \<open>Step 1: the set \<^verbatim>\<open>recent_delete_ids\<close>, as a list without repetitions.\<close>

definition recent_delete_ids :: "info list \<Rightarrow> string list" where
  "recent_delete_ids info_list = remdups (map info_id (filter info_is_recent info_list))"

text \<open>
  \<^verbatim>\<open>link_to_infos[link].append(info)\<close> on a \<^verbatim>\<open>defaultdict(list)\<close>; the dictionary is an
  association list in insertion order, as Python iterates it.
\<close>

fun dict_append :: "'k \<Rightarrow> 'v \<Rightarrow> ('k \<times> 'v list) list \<Rightarrow> ('k \<times> 'v list) list" where
  "dict_append k v [] = [(k, [v])]"
| "dict_append k v ((k', vs) # rest) =
     (if k = k' then (k', vs @ [v]) # rest else (k', vs) # dict_append k v rest)"

definition link_step :: "string list \<Rightarrow> (string \<times> info list) list \<Rightarrow> info \<Rightarrow> (string \<times> info list) list" where
  "link_step recent m i =
     (if info_id i \<in> set recent then m
      else if info_link i = [] then m
      else dict_append (info_link i) i m)"

definition link_to_infos :: "string list \<Rightarrow> info list \<Rightarrow> (string \<times> info list) list" where
  "link_to_infos recent info_list = foldl (link_step recent) [] info_list"

text \<open>The key of \<^verbatim>\<open>sorted(infos, key=sort_key)\<close>: documents without a date get \<^verbatim>\<open>date.max\<close>.\<close>

definition sort_key_of :: "info \<Rightarrow> int \<times> string" where
  "sort_key_of i = (case info_date i of None \<Rightarrow> (date_max, info_id i) | Some d \<Rightarrow> (d, info_id i))"

text \<open>
  The body of the loop over \<^verbatim>\<open>link_to_infos.items()\<close>: the ids of \<^verbatim>\<open>infos_sorted[1:]\<close>.
  Python's \<^verbatim>\<open>sorted\<close> is stable, as \<^const>\<open>sort_key\<close> is.
\<close>

definition group_to_delete :: "info list \<Rightarrow> string list" where
  "group_to_delete infos =
     (if length infos \<le> 1 then [] else map info_id (tl (sort_key sort_key_of infos)))"

definition duplicate_delete_ids :: "(string \<times> info list) list \<Rightarrow> string list" where
  "duplicate_delete_ids lti = remdups (concat (map (\<lambda>(link, infos). group_to_delete infos) lti))"

definition all_delete_ids :: "int \<Rightarrow> doc list \<Rightarrow> string list" where
  "all_delete_ids now docs =
     (let cutoff_recent = now - 2;
          info_list = map (mk_info cutoff_recent) docs;
          recent = recent_delete_ids info_list;
          dups = duplicate_delete_ids (link_to_infos recent info_list)
      in remdups (recent @ dups))"

text \<open>
  \<^verbatim>\<open>ref.delete()\<close> removes the document with that id, or raises; \<open>raises\<close> says for which
  ids it raises.
\<close>

definition ref_delete :: "(string \<Rightarrow> bool) \<Rightarrow> string \<Rightarrow> doc list \<Rightarrow> py_error + doc list" where
  "ref_delete raises i store =
     (if raises i then Inl StoreError else Inr (filter (\<lambda>d. doc_id d \<noteq> i) store))"

text \<open>
  The deletion loop of \<^verbatim>\<open>main\<close>: a failed deletion is counted and the loop goes on.
  Every id comes from a fetched document, so \<^verbatim>\<open>id_to_ref.get(doc_id)\<close> finds a reference.
\<close>

fun delete_loop :: "(string \<Rightarrow> bool) \<Rightarrow> string list \<Rightarrow> doc list \<times> nat \<Rightarrow> doc list \<times> nat" where
  "delete_loop raises [] (store, failures) = (store, failures)"
| "delete_loop raises (i # ids) (store, failures) =
     (case ref_delete raises i store of
        Inl e \<Rightarrow> delete_loop raises ids (store, failures + 1)
      | Inr store' \<Rightarrow> delete_loop raises ids (store', failures))"

text \<open>
  \<^verbatim>\<open>main\<close> of cleanup\_jobs.py, one purge cycle: \<open>now\<close> is \<^verbatim>\<open>datetime.now().date()\<close>, the
  result is the collection after the cycle and the number of failures.
\<close>

definition cleanup_main :: "int \<Rightarrow> (string \<Rightarrow> bool) \<Rightarrow> doc list \<Rightarrow> doc list \<times> nat" where
  "cleanup_main now raises docs = delete_loop raises (all_delete_ids now docs) (docs, 0)"


text \<open>
  The order the specification names: by date and then id, with the documents whose
  date is unknown after all documents with a date.
\<close>

definition spec_rank :: "info \<Rightarrow> nat \<times> int \<times> string" where
  "spec_rank i = (case info_date i of None \<Rightarrow> (1, 0, info_id i) | Some d \<Rightarrow> (0, d, info_id i))"

text \<open>The \<^verbatim>\<open>info\<close> of a document in a cycle run on the day \<open>now\<close>.\<close>

definition doc_info :: "int \<Rightarrow> doc \<Rightarrow> info" where
  "doc_info now d = mk_info (now - 2) d"

section \<open>harbour\_scraper.py\<close>

subsection \<open>The existence gate\<close>

text \<open>
  The query \<^verbatim>\<open>db.collection("Jobs").where(field, "==", value).limit(n).stream()\<close>, read to
  its end: the matching documents, or the exception of an unavailable store; \<open>raises\<close>
  says for which values the query raises.
\<close>

definition firestore_where_limit ::
  "(string \<Rightarrow> bool) \<Rightarrow> doc list \<Rightarrow> string \<Rightarrow> string \<Rightarrow> nat \<Rightarrow> py_error + doc list" where
  "firestore_where_limit raises store field v n =
     (if raises v then Inl StoreError
      else Inr (take n (filter (\<lambda>d. doc_data d field = Some (PyStr v)) store)))"

text \<open>
  \<^verbatim>\<open>job_exists_for_url\<close>: \<^verbatim>\<open>True\<close> at the first document of the query, \<^verbatim>\<open>False\<close> when there
  is none, and \<^verbatim>\<open>False\<close> from the handler of \<^verbatim>\<open>except Exception\<close>. The result is a sum so
  that an exception leaving the function would be the value \<open>Inl\<close>.
\<close>

definition job_exists_for_url :: "(string \<Rightarrow> bool) \<Rightarrow> doc list \<Rightarrow> string \<Rightarrow> py_error + bool" where
  "job_exists_for_url raises store url =
     (case firestore_where_limit raises store ''moreInfoLink'' url 1 of
        Inl e \<Rightarrow> Inr False
      | Inr query \<Rightarrow> (case query of [] \<Rightarrow> Inr False | x # xs \<Rightarrow> Inr True))"

subsection \<open>The notifier\<close>

datatype http_outcome = HttpStatus nat | HttpRaises

text \<open>
  \<^verbatim>\<open>send_onesignal_notification_for_job\<close>: \<open>post\<close> is the outcome of \<^verbatim>\<open>requests.post\<close> for
  the payload built from the job.
\<close>

definition send_onesignal_notification_for_job :: "(pydict \<Rightarrow> http_outcome) \<Rightarrow> pydict \<Rightarrow> py_error + bool" where
  "send_onesignal_notification_for_job post job =
     (case post job of
        HttpStatus c \<Rightarrow> Inr (c = 200 \<or> c = 201 \<or> c = 202)
      | HttpRaises \<Rightarrow> Inr False)"

subsection \<open>The age-based cleanup\<close>

text \<open>
  A \<^verbatim>\<open>datetime\<close> is the ordinal of its day, from 1 to that of \<^verbatim>\<open>date.max\<close>, and the
  microsecond within the day, ordered lexicographically; \<^verbatim>\<open>strptime\<close> gives midnight.
\<close>

type_synonym datetime = "int \<times> nat"

text \<open>
  The argument \<^verbatim>\<open>months\<close>: an integer, as the parameter is annotated and as \<^verbatim>\<open>main\<close>
  passes it, or the parameter's default, the float 1.5. Other floats are not modelled:
  their products round.
\<close>

datatype months_arg = MonthsInt int | MonthsDefault

definition months_value :: "months_arg \<Rightarrow> rat" where
  "months_value m = (case m of MonthsInt k \<Rightarrow> of_int k | MonthsDefault \<Rightarrow> 3 / 2)"

text \<open>
  The number of days of \<^verbatim>\<open>90 * months // 3 if months != 3 else 90\<close>. On integers Python
  computes the product and the floor division exactly; for the default, 90 * 1.5 is
  135.0 and 135.0 // 3 is 45.0, both exact in binary floating point.
\<close>

definition horizon_days :: "months_arg \<Rightarrow> int" where
  "horizon_days months =
     (if months_value months \<noteq> 3 then \<lfloor>90 * months_value months / 3\<rfloor> else 90)"

text \<open>
  \<^verbatim>\<open>timedelta(days=n)\<close> raises \<^verbatim>\<open>OverflowError\<close> beyond 999999999 days either way, and
  \<^verbatim>\<open>datetime - timedelta\<close> raises it when the result is not a day from 1 to that of
  \<^verbatim>\<open>date.max\<close>.
\<close>

definition timedelta_days :: "int \<Rightarrow> py_error + int" where
  "timedelta_days n = (if - 999999999 \<le> n \<and> n \<le> 999999999 then Inr n else Inl OverflowError)"

definition datetime_sub :: "datetime \<Rightarrow> int \<Rightarrow> py_error + datetime" where
  "datetime_sub dt n =
     (let day = fst dt - n
      in if 0 < day \<and> day \<le> date_max then Inr (day, snd dt) else Inl OverflowError)"

text \<open>
  The loop of \<^verbatim>\<open>delete_old_jobs\<close> over the streamed documents, on the state
  (collection, \<^verbatim>\<open>deleted\<close>, \<^verbatim>\<open>checked\<close>). \<^verbatim>\<open>.strip()\<close> on a \<^verbatim>\<open>None\<close> value raises
  \<^verbatim>\<open>AttributeError\<close>, which leaves the loop for the outer handler: the first component
  is that exception. A deletion that raises is logged and the loop goes on.
\<close>

fun delete_old_loop ::
  "(string \<Rightarrow> bool) \<Rightarrow> datetime \<Rightarrow> doc list \<Rightarrow> doc list \<times> nat \<times> nat
     \<Rightarrow> py_error option \<times> doc list \<times> nat \<times> nat" where
  "delete_old_loop raises cutoff [] st = (None, st)"
| "delete_old_loop raises cutoff (d # rest) (store, deleted, checked) =
     (case dict_get_default (doc_data d) ''date-posted'' (PyStr []) of
        PyNone \<Rightarrow> (Some AttributeError, (store, deleted, checked + 1))
      | PyStr s \<Rightarrow>
          (if strip s = [] then delete_old_loop raises cutoff rest (store, deleted, checked + 1)
           else
             (case strptime_ymd (strip s) of
                None \<Rightarrow> delete_old_loop raises cutoff rest (store, deleted, checked + 1)
              | Some dt \<Rightarrow>
                  (if (dt, 0) < cutoff then
                     (case ref_delete raises (doc_id d) store of
                        Inl e \<Rightarrow> delete_old_loop raises cutoff rest (store, deleted, checked + 1)
                      | Inr store' \<Rightarrow>
                          delete_old_loop raises cutoff rest (store', deleted + 1, checked + 1))
                   else delete_old_loop raises cutoff rest (store, deleted, checked + 1)))))"

text \<open>
  The body of \<^verbatim>\<open>delete_old_jobs\<close> for a horizon of \<open>days\<close> days at the time \<open>now\<close>: the
  exception that leaves the function, if any, and the collection afterwards. The
  cutoff is computed before the \<^verbatim>\<open>try\<close>, so its \<^verbatim>\<open>OverflowError\<close> leaves the function
  with the collection untouched. The outer handler only logs, so an exception inside
  the loop ends the loop and nothing leaves the function.
\<close>

definition delete_old_jobs_days ::
  "int \<Rightarrow> datetime \<Rightarrow> (string \<Rightarrow> bool) \<Rightarrow> doc list \<Rightarrow> py_error option \<times> doc list" where
  "delete_old_jobs_days days now raises docs =
     (case timedelta_days days of
        Inl e \<Rightarrow> (Some e, docs)
      | Inr n \<Rightarrow>
          (case datetime_sub now n of
             Inl e \<Rightarrow> (Some e, docs)
           | Inr cutoff \<Rightarrow> (None, fst (snd (delete_old_loop raises cutoff docs (docs, 0, 0))))))"

text \<open>\<^verbatim>\<open>delete_old_jobs(months)\<close> at the time \<open>now\<close>.\<close>

definition delete_old_jobs ::
  "months_arg \<Rightarrow> datetime \<Rightarrow> (string \<Rightarrow> bool) \<Rightarrow> doc list \<Rightarrow> py_error option \<times> doc list" where
  "delete_old_jobs months now raises docs =
     delete_old_jobs_days (horizon_days months) now raises docs"

text \<open>The test \<^verbatim>\<open>dt < cutoff\<close> on the date that \<^verbatim>\<open>parse_date_safe\<close> reads from the document.\<close>

definition older_than :: "datetime \<Rightarrow> doc \<Rightarrow> bool" where
  "older_than cutoff d =
     (case parse_date_safe (dict_get_default (doc_data d) ''date-posted'' (PyStr [])) of
        None \<Rightarrow> False
      | Some dt \<Rightarrow> (dt, 0) < cutoff)"

subsection \<open>The admission pipeline\<close>

text \<open>
  The collaborators of one run: whether the gate's query raises for a URL, the results
  of the two scrapers (\<open>None\<close> for a failed scrape; a scraped dictionary always has the
  key \<^verbatim>\<open>date-posted\<close>, so \<^verbatim>\<open>not job_data\<close> holds for \<open>None\<close> only), whether
  \<^verbatim>\<open>db.collection("Jobs").add\<close> raises, the id the store gives a new document, and the
  notifier as \<^verbatim>\<open>main\<close> calls it (it may return \<^verbatim>\<open>True\<close>, \<^verbatim>\<open>False\<close> or raise).
\<close>

record env =
  query_raises :: "string \<Rightarrow> bool"
  scrape_job_data_fresheropenings :: "string \<Rightarrow> pydict option"
  scrape_job_data_freshers_recruitment :: "string \<Rightarrow> pydict option"
  add_raises :: "pydict \<Rightarrow> bool"
  new_doc_id :: "doc list \<Rightarrow> string"
  notifier :: "pydict \<Rightarrow> py_error + bool"

text \<open>
  What a run does to its collaborators, in order, each with the URL being processed;
  \<open>StoreAdd\<close> is the attempt to write. Of the log lines the three of the notification
  step are kept.
\<close>

datatype event =
    GateQuery string
  | ScrapeCall string
  | StoreAdd string
  | NotifyCall string
  | LogNotified string
  | LogNotifyFailed string
  | LogNotifyException string
  | MarkSeen string

fun event_url :: "event \<Rightarrow> string" where
  "event_url (GateQuery u) = u"
| "event_url (ScrapeCall u) = u"
| "event_url (StoreAdd u) = u"
| "event_url (NotifyCall u) = u"
| "event_url (LogNotified u) = u"
| "event_url (LogNotifyFailed u) = u"
| "event_url (LogNotifyException u) = u"
| "event_url (MarkSeen u) = u"

text \<open>
  The state of a run: the collection, the lines of \<^verbatim>\<open>processed_urls.txt\<close> and the events
  so far. Candidate URLs match \<^verbatim>\<open>https?://[^\s]+\<close>, so a URL is one line of the file.
\<close>

record pstate =
  jobs :: "doc list"
  processed_file :: "string list"
  trace :: "event list"

definition load_processed_urls :: "string list \<Rightarrow> string list" where
  "load_processed_urls file_lines = filter (\<lambda>u. u \<noteq> []) (map strip file_lines)"

definition append_processed_url :: "string \<Rightarrow> pstate \<Rightarrow> pstate" where
  "append_processed_url url st =
     st\<lparr> processed_file := processed_file st @ [strip url], trace := trace st @ [MarkSeen url] \<rparr>"

definition emit :: "event \<Rightarrow> pstate \<Rightarrow> pstate" where
  "emit e st = st\<lparr> trace := trace st @ [e] \<rparr>"

text \<open>Python's \<^verbatim>\<open>sub in s\<close> on strings.\<close>

fun py_in :: "string \<Rightarrow> string \<Rightarrow> bool" where
  "py_in sub [] = (sub = [])"
| "py_in sub (c # cs) = (take (length sub) (c # cs) = sub \<or> py_in sub cs)"

text \<open>The choice of the scraper by domain; \<open>Unsupported\<close> is the \<^verbatim>\<open>else\<close> branch.\<close>

datatype scrape_outcome = Unsupported | ScrapeFailed | Scraped pydict

definition scrape_for :: "env \<Rightarrow> string \<Rightarrow> scrape_outcome" where
  "scrape_for env url =
     (if py_in ''fresheropenings.com'' url then
        (case scrape_job_data_fresheropenings env url of None \<Rightarrow> ScrapeFailed | Some j \<Rightarrow> Scraped j)
      else if py_in ''freshersrecruitment.co.in'' url then
        (case scrape_job_data_freshers_recruitment env url of None \<Rightarrow> ScrapeFailed | Some j \<Rightarrow> Scraped j)
      else Unsupported)"

text \<open>The test on \<^verbatim>\<open>company_val\<close>: the posting is skipped when it holds.\<close>

definition company_missing :: "pydict \<Rightarrow> bool" where
  "company_missing job_data =
     (let company_val = strip (or_empty (dict_get job_data ''company''))
      in company_val = [] \<or> upper company_val = ''N/A'')"

text \<open>
  The \<^verbatim>\<open>try\<close> block of the loop body: the write, the notification inside its own
  \<^verbatim>\<open>try\<close>, the mark. When the write raises the handler logs and nothing else happens.
\<close>

definition write_and_notify :: "env \<Rightarrow> pstate \<Rightarrow> string \<Rightarrow> pydict \<Rightarrow> pstate" where
  "write_and_notify env st url job_data =
     (let st1 = emit (StoreAdd url) st in
      if add_raises env job_data then st1
      else
        (let st2 = st1\<lparr> jobs := jobs st1 @ [\<lparr> doc_id = new_doc_id env (jobs st1), doc_data = job_data \<rparr>] \<rparr>;
             st3 = emit (NotifyCall url) st2;
             st4 = (case notifier env job_data of
                      Inr True \<Rightarrow> emit (LogNotified url) st3
                    | Inr False \<Rightarrow> emit (LogNotifyFailed url) st3
                    | Inl e \<Rightarrow> emit (LogNotifyException url) st3)
         in append_processed_url url st4))"

text \<open>The body of the loop \<^verbatim>\<open>for url in new_urls\<close>.\<close>

definition process_url :: "env \<Rightarrow> pstate \<Rightarrow> string \<Rightarrow> py_error + pstate" where
  "process_url env st url =
     (let st1 = emit (GateQuery url) st in
      case job_exists_for_url (query_raises env) (jobs st) url of
        Inl e \<Rightarrow> Inl e
      | Inr True \<Rightarrow> Inr (append_processed_url url st1)
      | Inr False \<Rightarrow>
          (case scrape_for env url of
             Unsupported \<Rightarrow> Inr (append_processed_url url st1)
           | ScrapeFailed \<Rightarrow> Inr (append_processed_url url (emit (ScrapeCall url) st1))
           | Scraped job_data \<Rightarrow>
               (let st2 = emit (ScrapeCall url) st1 in
                if company_missing job_data then Inr (append_processed_url url st2)
                else Inr (write_and_notify env st2 url job_data))))"

fun process_all :: "env \<Rightarrow> pstate \<Rightarrow> string list \<Rightarrow> py_error + pstate" where
  "process_all env st [] = Inr st"
| "process_all env st (url # urls) =
     (case process_url env st url of
        Inl e \<Rightarrow> Inl e
      | Inr st' \<Rightarrow> process_all env st' urls)"

text \<open>
  \<^verbatim>\<open>main\<close> from the candidate URLs on: the filter by the processed URLs, read once, and
  the loop.
\<close>

definition main_admission :: "env \<Rightarrow> pstate \<Rightarrow> string list \<Rightarrow> py_error + pstate" where
  "main_admission env st all_urls =
     (if all_urls = [] then Inr st
      else
        (let processed = load_processed_urls (processed_file st);
             new_urls = filter (\<lambda>u. u \<notin> set processed) all_urls
         in if new_urls = [] then Inr st else process_all env st new_urls))"

text \<open>The events a run added to the trace.\<close>

definition new_events :: "pstate \<Rightarrow> pstate \<Rightarrow> event list" where
  "new_events st st' = drop (length (trace st)) (trace st')"


section \<open>Auxiliary notions for the proofs\<close>

text \<open>
  The list that \<^const>\<open>link_to_infos\<close> holds for the link \<open>L\<close>: the documents that are not
  in \<open>recent\<close> and have that link, which is not empty.
\<close>

definition link_group :: "string list \<Rightarrow> string \<Rightarrow> info list \<Rightarrow> info list" where
  "link_group recent L il =
     filter (\<lambda>i. info_id i \<notin> set recent \<and> info_link i \<noteq> [] \<and> info_link i = L) il"

text \<open>
  The documents of the collection with the link \<open>L\<close> (as \<^verbatim>\<open>main\<close> reads it, stripped)
  that the recency rule does not take.
\<close>

definition dup_group :: "int \<Rightarrow> string \<Rightarrow> doc list \<Rightarrow> doc list" where
  "dup_group now L docs =
     filter (\<lambda>d. info_link (doc_info now d) = L \<and> \<not> info_is_recent (doc_info now d)) docs"

text \<open>The collection after one purge cycle.\<close>

definition purge :: "int \<Rightarrow> (string \<Rightarrow> bool) \<Rightarrow> doc list \<Rightarrow> doc list" where
  "purge now raises docs = fst (cleanup_main now raises docs)"

text \<open>The log line of the notification step for each outcome of the notifier.\<close>

definition notify_log :: "py_error + bool \<Rightarrow> string \<Rightarrow> event" where
  "notify_log r url = (case r of Inr True \<Rightarrow> LogNotified url | Inr False \<Rightarrow> LogNotifyFailed url
                       | Inl e \<Rightarrow> LogNotifyException url)"

section \<open>Example inputs\<close>

text \<open>A document with a link and a date text.\<close>

definition job_doc :: "string \<Rightarrow> string \<Rightarrow> string \<Rightarrow> doc" where
  "job_doc i link date_text =
     \<lparr> doc_id = i, doc_data = [''moreInfoLink'' \<mapsto> PyStr link, ''date-posted'' \<mapsto> PyStr date_text] \<rparr>"

text \<open>A store whose operations never raise, and one whose operations always raise.\<close>

definition never :: "string \<Rightarrow> bool" where
  "never i = False"

definition always :: "string \<Rightarrow> bool" where
  "always i = True"

text \<open>A store that cannot delete the document \<open>id2\<close>.\<close>

definition raises_id2 :: "string \<Rightarrow> bool" where
  "raises_id2 i = (i = ''id2'')"

text \<open>
  The scenario of the specification: three documents of one link, dated 1 January 2024,
  5 January 2024 and with an unreadable date; the cycle runs on 1 March 2024, the day
  738946.
\<close>

definition scenario_docs :: "doc list" where
  "scenario_docs =
     [job_doc ''id1'' ''L'' ''2024-01-01'', job_doc ''id2'' ''L'' ''2024-01-05'',
      job_doc ''id3'' ''L'' ''unknown'']"

text \<open>Three documents dated 1 January 2024, 1 January 2023 and with an unreadable date.\<close>

definition age_docs :: "doc list" where
  "age_docs = [job_doc ''a'' ''L'' ''2024-01-01'', job_doc ''b'' ''M'' ''2023-01-01'', job_doc ''c'' ''N'' ''soon'']"

text \<open>Two candidate URLs of a supported domain.\<close>

definition example_url :: string where
  "example_url = ''https://fresheropenings.com/job1''"

definition other_url :: string where
  "other_url = ''https://fresheropenings.com/job2''"

text \<open>A scraped posting with a company, and one with the scrapers' placeholder for it.\<close>

definition example_job :: pydict where
  "example_job = [''company'' \<mapsto> PyStr ''Acme'', ''job-title'' \<mapsto> PyStr ''Engineer'',
                  ''date-posted'' \<mapsto> PyStr ''2024-01-01'', ''moreInfoLink'' \<mapsto> PyStr example_url]"

definition na_job :: pydict where
  "na_job = [''company'' \<mapsto> PyStr ''N/A'', ''job-title'' \<mapsto> PyStr ''Engineer'',
             ''date-posted'' \<mapsto> PyStr ''2024-01-01'', ''moreInfoLink'' \<mapsto> PyStr example_url]"

text \<open>
  Collaborators that all succeed; the same with a store whose writes raise; the same
  with a scraper that finds no company; a notifier that raises.
\<close>

definition env_ok :: env where
  "env_ok = \<lparr> query_raises = (\<lambda>u. False),
              scrape_job_data_fresheropenings = (\<lambda>u. Some example_job),
              scrape_job_data_freshers_recruitment = (\<lambda>u. None),
              add_raises = (\<lambda>j. False),
              new_doc_id = (\<lambda>s. ''new''),
              notifier = (\<lambda>j. Inr True) \<rparr>"

definition env_write_fails :: env where
  "env_write_fails = env_ok \<lparr> add_raises := (\<lambda>j. True) \<rparr>"

definition env_na :: env where
  "env_na = env_ok \<lparr> scrape_job_data_fresheropenings := (\<lambda>u. Some na_job) \<rparr>"

definition notifier_raises :: "pydict \<Rightarrow> py_error + bool" where
  "notifier_raises j = Inl StoreError"

text \<open>
  An empty collection with an empty file of processed URLs, and with a file that holds
  the first URL.
\<close>

definition st0 :: pstate where
  "st0 = \<lparr> jobs = [], processed_file = [], trace = [] \<rparr>"

definition st_seen :: pstate where
  "st_seen = \<lparr> jobs = [], processed_file = [example_url], trace = [] \<rparr>"

section \<open>Lemmas on the purge cycle\<close>

lemma delete_loop_fst:
  "fst (delete_loop raises ids (store, n)) =
     filter (\<lambda>d. \<not> (doc_id d \<in> set ids \<and> \<not> raises (doc_id d))) store"
proof (induction ids arbitrary: store n)
  case Nil
  then show ?case by simp
next
  case (Cons i ids)
  show ?case
  proof (cases "raises i")
    case True
    then show ?thesis using Cons.IH [of store "n + 1"]
      by (auto simp: ref_delete_def intro: filter_cong)
  next
    case False
    then show ?thesis using Cons.IH [of "filter (\<lambda>d. doc_id d \<noteq> i) store" n]
      by (auto simp: ref_delete_def intro: filter_cong)
  qed
qed

lemma purge_filter:
  "purge now raises docs =
     filter (\<lambda>d. \<not> (doc_id d \<in> set (all_delete_ids now docs) \<and> \<not> raises (doc_id d))) docs"
  by (simp add: purge_def cleanup_main_def delete_loop_fst)

lemma map_of_dict_append:
  "map_of (dict_append k v m) =
     (map_of m)(k \<mapsto> (case map_of m k of None \<Rightarrow> [] | Some vs \<Rightarrow> vs) @ [v])"
  by (induction m) (auto simp: fun_eq_iff)

lemma keys_dict_append:
  "map fst (dict_append k v m) = (if k \<in> set (map fst m) then map fst m else map fst m @ [k])"
  by (induction m) (auto simp: rev_image_eqI)

lemma distinct_dict_append:
  "distinct (map fst m) \<Longrightarrow> distinct (map fst (dict_append k v m))"
  unfolding keys_dict_append by auto

lemma distinct_foldl_link_step:
  "distinct (map fst m) \<Longrightarrow> distinct (map fst (foldl (link_step recent) m il))"
  by (induction il arbitrary: m) (auto simp: link_step_def distinct_dict_append)

lemma map_of_foldl_link_step:
  "map_of (foldl (link_step recent) m il) L =
     (if link_group recent L il = [] then map_of m L
      else Some ((case map_of m L of None \<Rightarrow> [] | Some vs \<Rightarrow> vs) @ link_group recent L il))"
proof (induction il arbitrary: m)
  case Nil
  then show ?case by (simp add: link_group_def)
next
  case (Cons i il)
  show ?case
    unfolding foldl_Cons Cons.IH
    by (auto simp: link_step_def link_group_def map_of_dict_append split: option.splits)
qed

lemma link_to_infos_mem:
  "(L, g) \<in> set (link_to_infos recent il) \<longleftrightarrow> g = link_group recent L il \<and> g \<noteq> []"
proof -
  have d: "distinct (map fst (link_to_infos recent il))"
    unfolding link_to_infos_def by (rule distinct_foldl_link_step) simp
  have "(L, g) \<in> set (link_to_infos recent il) \<longleftrightarrow> map_of (link_to_infos recent il) L = Some g"
    using d by simp
  also have "\<dots> \<longleftrightarrow> g = link_group recent L il \<and> g \<noteq> []"
    unfolding link_to_infos_def map_of_foldl_link_step by auto
  finally show ?thesis .
qed

text \<open>After sorting by an injective key, the tail holds the elements that are not least.\<close>

lemma set_tl_sort_key:
  fixes f :: "'a \<Rightarrow> 'b::linorder"
  assumes "inj_on f (set xs)" "distinct xs"
  shows "set (tl (sort_key f xs)) = {x \<in> set xs. \<exists>y \<in> set xs. f y < f x}"
proof (cases "sort_key f xs")
  case Nil
  then have "xs = []" by (metis length_sort length_0_conv)
  then show ?thesis by simp
next
  case (Cons m rest)
  have s: "set xs = insert m (set rest)" using Cons by (metis set_sort list.simps(15))
  have dm: "m \<notin> set rest" using Cons assms(2) by (metis distinct_sort distinct.simps(2))
  have le: "\<forall>x \<in> set rest. f m \<le> f x"
    using sorted_sort_key [of f xs] Cons by simp
  have lt: "\<forall>x \<in> set rest. f m < f x"
  proof
    fix x assume x: "x \<in> set rest"
    then have "f m \<noteq> f x" using assms(1) dm s by (auto simp: inj_on_def)
    then show "f m < f x" using le x by (simp add: order_less_le)
  qed
  show ?thesis unfolding Cons using s dm lt by auto
qed

lemma info_id_mk_info [simp]: "info_id (mk_info c d) = doc_id d"
  by (simp add: mk_info_def Let_def)

lemma sort_key_of_id: "snd (sort_key_of i) = info_id i"
  by (simp add: sort_key_of_def split: option.splits)

lemma set_group_to_delete:
  assumes "distinct (map info_id g)"
  shows "set (group_to_delete g) =
           info_id ` {x \<in> set g. \<exists>y \<in> set g. sort_key_of y < sort_key_of x}"
proof -
  have dg: "distinct g" using assms by (simp add: distinct_map)
  have inj_id: "inj_on info_id (set g)" using assms by (simp add: distinct_map)
  have inj: "inj_on sort_key_of (set g)"
  proof (rule inj_onI)
    fix a b assume a: "a \<in> set g" and b: "b \<in> set g" and e: "sort_key_of a = sort_key_of b"
    from e have "info_id a = info_id b" by (metis sort_key_of_id)
    then show "a = b" using inj_id a b by (auto dest: inj_onD)
  qed
  have t: "set (tl (sort_key sort_key_of g)) = {x \<in> set g. \<exists>y \<in> set g. sort_key_of y < sort_key_of x}"
    using inj dg by (rule set_tl_sort_key)
  show ?thesis
  proof (cases "length g \<le> 1")
    case True
    then have "g = [] \<or> (\<exists>a. g = [a])" by (cases g) auto
    then show ?thesis using True by (auto simp: group_to_delete_def)
  next
    case False
    then show ?thesis by (simp add: group_to_delete_def t)
  qed
qed

lemma set_duplicate_delete_ids:
  "set (duplicate_delete_ids lti) = (\<Union>(L, g) \<in> set lti. set (group_to_delete g))"
  by (auto simp: duplicate_delete_ids_def)

lemma mem_recent_delete_ids:
  assumes "distinct (map info_id il)" "i \<in> set il"
  shows "info_id i \<in> set (recent_delete_ids il) \<longleftrightarrow> info_is_recent i"
proof -
  have inj: "inj_on info_id (set il)" using assms(1) by (simp add: distinct_map)
  show ?thesis using assms(2) inj by (auto simp: recent_delete_ids_def dest: inj_onD)
qed

lemma mem_dups:
  assumes "distinct (map info_id il)" "i \<in> set il"
  shows "info_id i \<in> set (duplicate_delete_ids (link_to_infos (recent_delete_ids il) il)) \<longleftrightarrow>
         \<not> info_is_recent i \<and> info_link i \<noteq> [] \<and>
         (\<exists>j \<in> set il. \<not> info_is_recent j \<and> info_link j = info_link i \<and> sort_key_of j < sort_key_of i)"
    (is "?lhs \<longleftrightarrow> ?rhs")
proof -
  let ?rec = "recent_delete_ids il"
  have inj: "inj_on info_id (set il)" using assms(1) by (simp add: distinct_map)
  have dg: "\<And>L. distinct (map info_id (link_group ?rec L il))"
    using assms(1) by (simp add: link_group_def distinct_map_filter)
  have mem_grp: "\<And>L j. j \<in> set (link_group ?rec L il) \<longleftrightarrow>
      j \<in> set il \<and> \<not> info_is_recent j \<and> info_link j \<noteq> [] \<and> info_link j = L"
    using mem_recent_delete_ids [OF assms(1)] by (auto simp: link_group_def)
  have "?lhs \<longleftrightarrow> (\<exists>L. link_group ?rec L il \<noteq> [] \<and> info_id i \<in> set (group_to_delete (link_group ?rec L il)))"
    by (auto simp: set_duplicate_delete_ids link_to_infos_mem)
  also have "\<dots> \<longleftrightarrow> (\<exists>L. info_id i \<in> info_id ` {x \<in> set (link_group ?rec L il).
        \<exists>y \<in> set (link_group ?rec L il). sort_key_of y < sort_key_of x})"
  proof -
    have "\<And>L. link_group ?rec L il \<noteq> [] \<and> info_id i \<in> set (group_to_delete (link_group ?rec L il)) \<longleftrightarrow>
        info_id i \<in> info_id ` {x \<in> set (link_group ?rec L il).
        \<exists>y \<in> set (link_group ?rec L il). sort_key_of y < sort_key_of x}"
      unfolding set_group_to_delete [OF dg] by fastforce
    then show ?thesis by simp
  qed
  also have "\<dots> \<longleftrightarrow> (\<exists>L. i \<in> set (link_group ?rec L il) \<and>
        (\<exists>y \<in> set (link_group ?rec L il). sort_key_of y < sort_key_of i))"
  proof -
    have "\<And>L x. x \<in> set (link_group ?rec L il) \<Longrightarrow> info_id i = info_id x \<Longrightarrow> x = i"
      using inj assms(2) by (auto simp: link_group_def dest: inj_onD)
    then show ?thesis by blast
  qed
  also have "\<dots> \<longleftrightarrow> ?rhs"
    using assms(2) by (auto simp: mem_grp)
  finally show ?thesis .
qed

text \<open>
  What one cycle schedules, document by document: the recent ones, and of the others
  with a link those for which an older one with the same link exists.
\<close>

lemma all_delete_ids_iff:
  assumes "distinct (map doc_id docs)" "d \<in> set docs"
  shows "doc_id d \<in> set (all_delete_ids now docs) \<longleftrightarrow>
         info_is_recent (doc_info now d) \<or>
         (info_link (doc_info now d) \<noteq> [] \<and>
          (\<exists>e \<in> set docs. \<not> info_is_recent (doc_info now e) \<and>
              info_link (doc_info now e) = info_link (doc_info now d) \<and>
              sort_key_of (doc_info now e) < sort_key_of (doc_info now d)))"
proof -
  let ?il = "map (mk_info (now - 2)) docs"
  have m: "map info_id ?il = map doc_id docs" by simp
  have dist: "distinct (map info_id ?il)" unfolding m by (rule assms(1))
  have mem: "mk_info (now - 2) d \<in> set ?il" using assms(2) by simp
  have "doc_id d \<in> set (all_delete_ids now docs) \<longleftrightarrow>
        info_id (mk_info (now - 2) d) \<in> set (recent_delete_ids ?il) \<or>
        info_id (mk_info (now - 2) d) \<in> set (duplicate_delete_ids (link_to_infos (recent_delete_ids ?il) ?il))"
    by (simp add: all_delete_ids_def Let_def)
  also have "\<dots> \<longleftrightarrow> info_is_recent (doc_info now d) \<or>
         (info_link (doc_info now d) \<noteq> [] \<and>
          (\<exists>e \<in> set docs. \<not> info_is_recent (doc_info now e) \<and>
              info_link (doc_info now e) = info_link (doc_info now d) \<and>
              sort_key_of (doc_info now e) < sort_key_of (doc_info now d)))"
    unfolding mem_recent_delete_ids [OF dist mem] mem_dups [OF dist mem] doc_info_def
    by auto
  finally show ?thesis .
qed

lemma recent_scheduled:
  assumes "d \<in> set docs" "info_is_recent (doc_info now d)"
  shows "doc_id d \<in> set (all_delete_ids now docs)"
proof -
  have "mk_info (now - 2) d \<in> set (filter info_is_recent (map (mk_info (now - 2)) docs))"
    using assms by (simp add: doc_info_def)
  then have "info_id (mk_info (now - 2) d) \<in> set (recent_delete_ids (map (mk_info (now - 2)) docs))"
    unfolding recent_delete_ids_def set_remdups set_map by (rule imageI)
  then show ?thesis by (simp add: all_delete_ids_def Let_def)
qed

lemma is_recent_iff:
  "info_is_recent (doc_info now d) \<longleftrightarrow>
     (\<exists>dp. parse_date_safe (dict_get_default (doc_data d) ''date-posted'' (PyStr [])) = Some dp \<and> now - 2 \<le> dp)"
  by (auto simp: doc_info_def mk_info_def Let_def split: option.splits)

lemma mem_purge_iff:
  assumes "distinct (map doc_id docs)" "d \<in> set docs"
  shows "d \<in> set (purge now raises docs) \<longleftrightarrow>
         raises (doc_id d) \<or>
         \<not> (info_is_recent (doc_info now d) \<or>
         (info_link (doc_info now d) \<noteq> [] \<and>
          (\<exists>e \<in> set docs. \<not> info_is_recent (doc_info now e) \<and>
              info_link (doc_info now e) = info_link (doc_info now d) \<and>
              sort_key_of (doc_info now e) < sort_key_of (doc_info now d))))"
  unfolding all_delete_ids_iff [OF assms, symmetric] using assms(2) by (auto simp: purge_filter)

lemma purge_subset: "set (purge now raises docs) \<subseteq> set docs"
  by (auto simp: purge_filter)

lemma info_date_doc_info:
  "info_is_recent (doc_info now d) \<longleftrightarrow> (\<exists>x. info_date (doc_info now d) = Some x \<and> now - 2 \<le> x)"
  by (auto simp: doc_info_def mk_info_def Let_def split: option.splits)

lemma key_spec_equiv:
  assumes "now \<le> date_max" "\<not> info_is_recent (doc_info now a)" "\<not> info_is_recent (doc_info now b)"
  shows "sort_key_of (doc_info now a) < sort_key_of (doc_info now b) \<longleftrightarrow>
         spec_rank (doc_info now a) < spec_rank (doc_info now b)"
proof -
  have a: "\<And>x. info_date (doc_info now a) = Some x \<Longrightarrow> x < date_max"
    using assms(1,2) by (auto simp: info_date_doc_info)
  have b: "\<And>x. info_date (doc_info now b) = Some x \<Longrightarrow> x < date_max"
    using assms(1,3) by (auto simp: info_date_doc_info)
  show ?thesis
    using a b by (auto simp: sort_key_of_def spec_rank_def less_prod_def split: option.splits)
qed

lemma sort_key_doc_inj:
  assumes "distinct (map doc_id docs)" "a \<in> set docs" "b \<in> set docs"
    "sort_key_of (doc_info now a) = sort_key_of (doc_info now b)"
  shows "a = b"
proof -
  have "info_id (doc_info now a) = info_id (doc_info now b)" using assms(4) by (metis sort_key_of_id)
  then have "doc_id a = doc_id b" by (simp add: doc_info_def)
  then show ?thesis using assms(1-3) by (auto simp: distinct_map dest: inj_onD)
qed

section \<open>Lemmas on the age-based cleanup\<close>

lemma older_than_PyStr:
  "dict_get_default (doc_data d) ''date-posted'' (PyStr []) = PyStr s \<Longrightarrow>
   older_than cutoff d \<longleftrightarrow>
     (strip s \<noteq> [] \<and> (\<exists>dt. strptime_ymd (strip s) = Some dt \<and> (dt, 0) < cutoff))"
  by (auto simp: older_than_def parse_date_safe_def or_empty_def Let_def split: option.splits)

lemma older_than_PyNone:
  "dict_get_default (doc_data d) ''date-posted'' (PyStr []) = PyNone \<Longrightarrow> \<not> older_than cutoff d"
  by (simp add: older_than_def parse_date_safe_def or_empty_def strip_def)

lemma delete_old_loop_keeps:
  assumes "x \<in> set store" "\<forall>e \<in> set ds. doc_id e = doc_id x \<longrightarrow> \<not> older_than cutoff e"
  shows "x \<in> set (fst (snd (delete_old_loop raises cutoff ds (store, n, c))))"
  using assms
proof (induction ds arbitrary: store n c)
  case Nil
  then show ?case by simp
next
  case (Cons d ds)
  have rest: "\<forall>e \<in> set ds. doc_id e = doc_id x \<longrightarrow> \<not> older_than cutoff e" using Cons.prems(2) by simp
  note IH = Cons.IH [OF _ rest]
  show ?case
  proof (cases "dict_get_default (doc_data d) ''date-posted'' (PyStr [])")
    case PyNone
    then show ?thesis using Cons.prems(1) by simp
  next
    case (PyStr s)
    show ?thesis
    proof (cases "older_than cutoff d")
      case True
      then have ne: "doc_id d \<noteq> doc_id x" using Cons.prems(2) by auto
      then have "x \<in> set (filter (\<lambda>y. doc_id y \<noteq> doc_id d) store)" using Cons.prems(1) by simp
      then show ?thesis using True PyStr IH Cons.prems(1)
        by (auto simp: older_than_PyStr [OF PyStr] ref_delete_def)
    next
      case False
      then show ?thesis using PyStr IH [OF Cons.prems(1)]
        by (auto simp: older_than_PyStr [OF PyStr] split: option.splits)
    qed
  qed
qed

lemma delete_old_loop_exact:
  assumes "\<forall>d \<in> set ds. dict_get_default (doc_data d) ''date-posted'' (PyStr []) \<noteq> PyNone"
    and "\<forall>d \<in> set ds. \<not> raises (doc_id d)"
  shows "fst (snd (delete_old_loop raises cutoff ds (store, n, c))) =
         filter (\<lambda>x. doc_id x \<notin> doc_id ` {e \<in> set ds. older_than cutoff e}) store"
  using assms
proof (induction ds arbitrary: store n c)
  case Nil
  then show ?case by simp
next
  case (Cons d ds)
  have p1: "\<forall>d \<in> set ds. dict_get_default (doc_data d) ''date-posted'' (PyStr []) \<noteq> PyNone"
    and p2: "\<forall>d \<in> set ds. \<not> raises (doc_id d)" using Cons.prems by simp_all
  note IH = Cons.IH [OF p1 p2]
  obtain s where s: "dict_get_default (doc_data d) ''date-posted'' (PyStr []) = PyStr s"
    using Cons.prems(1) by (cases "dict_get_default (doc_data d) ''date-posted'' (PyStr [])") auto
  have nr: "\<not> raises (doc_id d)" using Cons.prems(2) by simp
  show ?case
  proof (cases "older_than cutoff d")
    case True
    have "{e \<in> set (d # ds). older_than cutoff e} = insert d {e \<in> set ds. older_than cutoff e}"
      using True by auto
    then show ?thesis using True s nr IH
      by (auto simp: older_than_PyStr [OF s] ref_delete_def intro: filter_cong)
  next
    case False
    have "{e \<in> set (d # ds). older_than cutoff e} = {e \<in> set ds. older_than cutoff e}"
      using False by auto
    then show ?thesis using False s IH
      by (auto simp: older_than_PyStr [OF s] split: option.splits)
  qed
qed

lemma horizon_days_int: "horizon_days (MonthsInt k) = 30 * k"
proof -
  have "90 * (of_int k :: rat) / 3 = of_int (30 * k)" by simp
  then have "\<lfloor>90 * (of_int k :: rat) / 3\<rfloor> = 30 * k" by (simp only: floor_of_int)
  then show ?thesis by (auto simp: horizon_days_def months_value_def)
qed

lemma horizon_default: "horizon_days MonthsDefault = 45"
  by (simp add: horizon_days_def months_value_def)

lemma date_max_value: "date_max = 3652059"
  by code_simp

lemma delete_old_jobs_days_in_range:
  assumes "1 \<le> fst now" "fst now \<le> date_max" "1 \<le> fst now - days" "fst now - days \<le> date_max"
  shows "delete_old_jobs_days days now raises docs =
           (None, fst (snd (delete_old_loop raises (fst now - days, snd now) docs (docs, 0, 0))))"
proof -
  have "- 999999999 \<le> days \<and> days \<le> 999999999" using assms by (simp add: date_max_value)
  then show ?thesis using assms(3,4)
    by (simp add: delete_old_jobs_days_def timedelta_days_def datetime_sub_def Let_def)
qed

lemma delete_old_jobs_days_out_of_range:
  assumes "\<not> (1 \<le> fst now - days \<and> fst now - days \<le> date_max)"
  shows "delete_old_jobs_days days now raises docs = (Some OverflowError, docs)"
  using assms
  by (auto simp: delete_old_jobs_days_def timedelta_days_def datetime_sub_def Let_def)

lemma delete_old_jobs_days_keeps:
  assumes "x \<in> set docs" "\<And>cutoff. \<forall>e \<in> set docs. doc_id e = doc_id x \<longrightarrow> \<not> older_than cutoff e"
  shows "x \<in> set (snd (delete_old_jobs_days days now raises docs))"
  using assms
  by (auto simp: delete_old_jobs_days_def intro!: delete_old_loop_keeps split: sum.splits)

section \<open>Lemmas on the admission pipeline\<close>

lemma job_exists_Inr: "\<exists>b. job_exists_for_url raises store url = Inr b"
  by (auto simp: job_exists_for_url_def split: sum.splits list.splits)

lemma new_events_append: "trace st' = trace st @ evs \<Longrightarrow> new_events st st' = evs"
  by (simp add: new_events_def)

lemma process_url_gate_true:
  assumes "job_exists_for_url (query_raises env) (jobs st) url = Inr True"
  shows "process_url env st url =
     Inr (st\<lparr> processed_file := processed_file st @ [strip url],
             trace := trace st @ [GateQuery url, MarkSeen url] \<rparr>)"
  using assms by (simp add: process_url_def Let_def emit_def append_processed_url_def)

lemma process_url_unsupported:
  assumes "job_exists_for_url (query_raises env) (jobs st) url = Inr False"
    "scrape_for env url = Unsupported"
  shows "process_url env st url =
     Inr (st\<lparr> processed_file := processed_file st @ [strip url],
             trace := trace st @ [GateQuery url, MarkSeen url] \<rparr>)"
  using assms by (simp add: process_url_def Let_def emit_def append_processed_url_def)

lemma process_url_scrape_failed:
  assumes "job_exists_for_url (query_raises env) (jobs st) url = Inr False"
    "scrape_for env url = ScrapeFailed"
  shows "process_url env st url =
     Inr (st\<lparr> processed_file := processed_file st @ [strip url],
             trace := trace st @ [GateQuery url, ScrapeCall url, MarkSeen url] \<rparr>)"
  using assms by (simp add: process_url_def Let_def emit_def append_processed_url_def)

lemma process_url_company_missing:
  assumes "job_exists_for_url (query_raises env) (jobs st) url = Inr False"
    "scrape_for env url = Scraped job" "company_missing job"
  shows "process_url env st url =
     Inr (st\<lparr> processed_file := processed_file st @ [strip url],
             trace := trace st @ [GateQuery url, ScrapeCall url, MarkSeen url] \<rparr>)"
  using assms by (simp add: process_url_def Let_def emit_def append_processed_url_def)

lemma process_url_write_fails:
  assumes "job_exists_for_url (query_raises env) (jobs st) url = Inr False"
    "scrape_for env url = Scraped job" "\<not> company_missing job" "add_raises env job"
  shows "process_url env st url =
     Inr (st\<lparr> trace := trace st @ [GateQuery url, ScrapeCall url, StoreAdd url] \<rparr>)"
  using assms by (simp add: process_url_def write_and_notify_def Let_def emit_def)

lemma process_url_written:
  assumes "job_exists_for_url (query_raises env) (jobs st) url = Inr False"
    "scrape_for env url = Scraped job" "\<not> company_missing job" "\<not> add_raises env job"
  shows "process_url env st url =
     Inr (st\<lparr> jobs := jobs st @ [\<lparr> doc_id = new_doc_id env (jobs st), doc_data = job \<rparr>],
             processed_file := processed_file st @ [strip url],
             trace := trace st @ [GateQuery url, ScrapeCall url, StoreAdd url, NotifyCall url,
                                   notify_log (notifier env job) url, MarkSeen url] \<rparr>)"
  using assms
  by (simp add: process_url_def write_and_notify_def Let_def emit_def append_processed_url_def
        notify_log_def split: sum.splits bool.splits)

lemma scrape_for_notifier [simp]: "scrape_for (env\<lparr>notifier := n\<rparr>) url = scrape_for env url"
  by (simp add: scrape_for_def)

lemma process_url_trace:
  "\<exists>st' evs. process_url env st u = Inr st' \<and> trace st' = trace st @ evs \<and>
      (\<forall>e \<in> set evs. event_url e = u)"
proof -
  obtain b where b: "job_exists_for_url (query_raises env) (jobs st) u = Inr b"
    using job_exists_Inr by blast
  show ?thesis
  proof (cases b)
    case True
    then show ?thesis using process_url_gate_true [of env st u] b by auto
  next
    case False
    then have g: "job_exists_for_url (query_raises env) (jobs st) u = Inr False" using b by simp
    show ?thesis
    proof (cases "scrape_for env u")
      case Unsupported
      then show ?thesis using process_url_unsupported [OF g] by auto
    next
      case ScrapeFailed
      then show ?thesis using process_url_scrape_failed [OF g] by auto
    next
      case (Scraped job)
      show ?thesis
      proof (cases "company_missing job")
        case True
        then show ?thesis using process_url_company_missing [OF g Scraped] by auto
      next
        case False
        note nm = this
        show ?thesis
        proof (cases "add_raises env job")
          case True
          then show ?thesis using process_url_write_fails [OF g Scraped nm] by auto
        next
          case False
          have "event_url (notify_log (notifier env job) u) = u"
            by (simp add: notify_log_def split: sum.splits bool.splits)
          then show ?thesis using process_url_written [OF g Scraped nm False] by auto
        qed
      qed
    qed
  qed
qed

lemma process_all_trace:
  "\<exists>st' evs. process_all env st us = Inr st' \<and> trace st' = trace st @ evs \<and>
      (\<forall>e \<in> set evs. event_url e \<in> set us)"
proof (induction us arbitrary: st)
  case Nil
  then show ?case by simp
next
  case (Cons u us)
  obtain st1 evs1 where 1: "process_url env st u = Inr st1" "trace st1 = trace st @ evs1"
    "\<forall>e \<in> set evs1. event_url e = u"
    using process_url_trace by blast
  obtain st2 evs2 where 2: "process_all env st1 us = Inr st2" "trace st2 = trace st1 @ evs2"
    "\<forall>e \<in> set evs2. event_url e \<in> set us"
    using Cons.IH by blast
  have "process_all env st (u # us) = Inr st2" using 1(1) 2(1) by simp
  moreover have "trace st2 = trace st @ (evs1 @ evs2)" using 1(2) 2(2) by simp
  moreover have "\<forall>e \<in> set (evs1 @ evs2). event_url e \<in> set (u # us)" using 1(3) 2(3) by auto
  ultimately show ?case by blast
qed

lemma gate_st0: "job_exists_for_url (query_raises env_ok) [] u = Inr False"
  by (simp add: job_exists_for_url_def firestore_where_limit_def env_ok_def)

lemma py_in_example: "py_in ''fresheropenings.com'' example_url"
  by code_simp

lemma py_in_other: "py_in ''fresheropenings.com'' other_url"
  by code_simp

lemma company_example: "\<not> company_missing example_job"
  by code_simp

lemma company_na: "company_missing na_job"
  by code_simp

lemma strip_example: "strip example_url = example_url"
  by code_simp

lemma strip_other: "strip other_url = other_url"
  by code_simp

lemma urls_differ: "other_url \<noteq> example_url"
  by code_simp

lemma scrape_ok: "scrape_for env_ok example_url = Scraped example_job"
  using py_in_example by (simp add: scrape_for_def env_ok_def)

lemma scrape_wf: "scrape_for env_write_fails example_url = Scraped example_job"
  using py_in_example by (simp add: scrape_for_def env_write_fails_def env_ok_def)

lemma scrape_na: "scrape_for env_na example_url = Scraped na_job"
  using py_in_example by (simp add: scrape_for_def env_na_def env_ok_def)

lemma scrape_ok_other: "scrape_for env_ok other_url = Scraped example_job"
  using py_in_other by (simp add: scrape_for_def env_ok_def)

lemma seen_st_seen: "example_url \<in> set (load_processed_urls (processed_file st_seen))"
  using strip_example by (simp add: load_processed_urls_def st_seen_def example_url_def)

lemma run_seen:
  "main_admission env_ok st_seen [example_url, other_url] =
     Inr \<lparr> jobs = [\<lparr> doc_id = ''new'', doc_data = example_job \<rparr>],
           processed_file = [example_url, other_url],
           trace = [GateQuery other_url, ScrapeCall other_url, StoreAdd other_url,
                    NotifyCall other_url, LogNotified other_url, MarkSeen other_url] \<rparr>"
proof -
  have f: "filter (\<lambda>u. u \<notin> set (load_processed_urls (processed_file st_seen))) [example_url, other_url]
      = [other_url]"
    using strip_example urls_differ by (simp add: load_processed_urls_def st_seen_def example_url_def)
  have g: "job_exists_for_url (query_raises env_ok) (jobs st_seen) other_url = Inr False"
    by (simp add: st_seen_def gate_st0)
  have a: "\<not> add_raises env_ok example_job" by (simp add: env_ok_def)
  have "main_admission env_ok st_seen [example_url, other_url] = process_all env_ok st_seen [other_url]"
    unfolding main_admission_def Let_def f by simp
  also have "\<dots> = process_url env_ok st_seen other_url"
    by (simp split: sum.splits)
  finally show ?thesis
    using process_url_written [OF g scrape_ok_other company_example a] strip_other
    by (simp add: st_seen_def env_ok_def notify_log_def)
qed

text \<open>The documents without a readable date: no key, \<^verbatim>\<open>None\<close>, blank text, or text that is no date.\<close>

lemma unknown_date_cases:
  "parse_date_safe (dict_get_default (doc_data d) ''date-posted'' (PyStr [])) = None \<longleftrightarrow>
     doc_data d ''date-posted'' = None \<or> doc_data d ''date-posted'' = Some PyNone \<or>
     (\<exists>s. doc_data d ''date-posted'' = Some (PyStr s) \<and>
          (strip s = [] \<or> strptime_ymd (strip s) = None))"
proof (cases "doc_data d ''date-posted''")
  case None
  then show ?thesis
    by (simp add: parse_date_safe_def dict_get_default_def or_empty_def strip_def)
next
  case (Some v)
  then show ?thesis
    by (cases v) (auto simp: parse_date_safe_def dict_get_default_def or_empty_def strip_def Let_def)
qed

section \<open>The claims\<close>

text \<open>
  C1. Take the documents of one link \<open>L\<close>, not empty (the link as the cycle reads it,
  stripped of white space), that the recency rule does not take; suppose there are two
  or more of them and the store carries out their deletions. After one purge cycle
  exactly one of them is left, and it comes before every other member in the order of
  the specification: by date and id, unknown dates after all known ones. The ids of a
  collection are distinct, and \<open>now\<close> is a \<^verbatim>\<open>date\<close>, so at most \<^verbatim>\<open>date.max\<close>.
\<close>

theorem duplicates_collapse_to_least:
  assumes dist: "distinct (map doc_id docs)"
    and now: "now \<le> date_max"
    and link: "L \<noteq> []"
    and two: "2 \<le> length (dup_group now L docs)"
    and del: "\<forall>d \<in> set (dup_group now L docs). \<not> raises (doc_id d)"
  shows "\<exists>m. set (purge now raises docs) \<inter> set (dup_group now L docs) = {m} \<and>
             (\<forall>d \<in> set (dup_group now L docs). d \<noteq> m \<longrightarrow>
                 spec_rank (doc_info now m) < spec_rank (doc_info now d))"
proof -
  let ?G = "set (dup_group now L docs)"
  let ?k = "\<lambda>d. sort_key_of (doc_info now d)"
  have G: "\<And>d. d \<in> ?G \<longleftrightarrow> d \<in> set docs \<and> info_link (doc_info now d) = L \<and> \<not> info_is_recent (doc_info now d)"
    by (auto simp: dup_group_def)
  have ne: "?G \<noteq> {}" using two by (cases "dup_group now L docs") auto
  have "Min (?k ` ?G) \<in> ?k ` ?G" using ne by (intro Min_in) auto
  then obtain m where m: "m \<in> ?G" and mk: "?k m = Min (?k ` ?G)" by auto
  have le: "\<And>d. d \<in> ?G \<Longrightarrow> ?k m \<le> ?k d" unfolding mk by (intro Min_le) auto
  have lt: "\<And>d. d \<in> ?G \<Longrightarrow> d \<noteq> m \<Longrightarrow> ?k m < ?k d"
  proof -
    fix d assume d: "d \<in> ?G" "d \<noteq> m"
    have "?k m \<noteq> ?k d" using sort_key_doc_inj [OF dist, of m d now] d m G by auto
    then show "?k m < ?k d" using le [OF d(1)] by (simp add: order_less_le)
  qed
  have gone: "\<And>d. d \<in> ?G \<Longrightarrow> d \<noteq> m \<Longrightarrow> d \<notin> set (purge now raises docs)"
  proof -
    fix d assume d: "d \<in> ?G" "d \<noteq> m"
    have "d \<in> set docs" using d G by simp
    then show "d \<notin> set (purge now raises docs)"
      unfolding mem_purge_iff [OF dist \<open>d \<in> set docs\<close>]
      using del d lt [OF d] m G link by auto
  qed
  have stays: "m \<in> set (purge now raises docs)"
  proof -
    have md: "m \<in> set docs" using m G by simp
    have "\<And>e. e \<in> set docs \<Longrightarrow> \<not> info_is_recent (doc_info now e) \<Longrightarrow>
        info_link (doc_info now e) = info_link (doc_info now m) \<Longrightarrow> \<not> ?k e < ?k m"
    proof -
      fix e assume "e \<in> set docs" "\<not> info_is_recent (doc_info now e)"
        "info_link (doc_info now e) = info_link (doc_info now m)"
      then have "e \<in> ?G" using m G by auto
      then show "\<not> ?k e < ?k m" using le by (simp add: not_less)
    qed
    then show ?thesis unfolding mem_purge_iff [OF dist md] using m G by auto
  qed
  have inter: "set (purge now raises docs) \<inter> ?G = {m}" using gone stays m by auto
  have least: "\<forall>d \<in> ?G. d \<noteq> m \<longrightarrow> spec_rank (doc_info now m) < spec_rank (doc_info now d)"
  proof (intro ballI impI)
    fix d assume d: "d \<in> ?G" "d \<noteq> m"
    have "\<not> info_is_recent (doc_info now m)" "\<not> info_is_recent (doc_info now d)" using m d G by auto
    from key_spec_equiv [OF now this] lt [OF d]
    show "spec_rank (doc_info now m) < spec_rank (doc_info now d)" by simp
  qed
  show ?thesis using inter least by blast
qed

theorem duplicates_collapse_to_least_witness:
  "distinct (map doc_id scenario_docs) \<and> 738946 \<le> date_max \<and> 2 \<le> length (dup_group 738946 ''L'' scenario_docs)
   \<and> (\<exists>m. set (purge 738946 never scenario_docs) \<inter> set (dup_group 738946 ''L'' scenario_docs) = {m} \<and>
             (\<forall>d \<in> set (dup_group 738946 ''L'' scenario_docs). d \<noteq> m \<longrightarrow>
                 spec_rank (doc_info 738946 m) < spec_rank (doc_info 738946 d)))
   \<and> map doc_id (purge 738946 never scenario_docs) = [''id1'']"
proof -
  have h1: "distinct (map doc_id scenario_docs)" by code_simp
  have h2: "738946 \<le> date_max" by code_simp
  have h3: "''L'' \<noteq> []" by simp
  have h4: "2 \<le> length (dup_group 738946 ''L'' scenario_docs)" by code_simp
  have h5: "\<forall>d \<in> set (dup_group 738946 ''L'' scenario_docs). \<not> never (doc_id d)"
    by (simp add: never_def)
  have h6: "map doc_id (purge 738946 never scenario_docs) = [''id1'']" by code_simp
  show ?thesis
    using duplicates_collapse_to_least [where raises = never, OF h1 h2 h3 h4 h5] h1 h2 h4 h6 by blast
qed

text \<open>
  C2. A document of the collection whose \<^verbatim>\<open>date-posted\<close> parses as a date on or after
  \<open>now - 2\<close> days is gone after one purge cycle, whatever else the collection holds (so
  also when it is the only document of its link), when the store carries out its
  deletion.
\<close>

theorem recent_record_deleted:
  assumes "d \<in> set docs"
    and "parse_date_safe (dict_get_default (doc_data d) ''date-posted'' (PyStr [])) = Some dp"
    and "now - 2 \<le> dp"
    and "\<not> raises (doc_id d)"
  shows "d \<notin> set (purge now raises docs)"
proof -
  have "info_is_recent (doc_info now d)" using assms(2,3) by (auto simp: is_recent_iff)
  then have "doc_id d \<in> set (all_delete_ids now docs)" using assms(1) by (rule recent_scheduled[rotated])
  then show ?thesis using assms(4) by (simp add: purge_filter)
qed

text \<open>
  The scenario of the specification: the only document of the link \<open>M\<close>, dated today
  (10 January 2024 is the day 738895).
\<close>

theorem recent_record_deleted_witness:
  "parse_date_safe (dict_get_default (doc_data (job_doc ''id4'' ''M'' ''2024-01-10'')) ''date-posted'' (PyStr []))
      = Some 738895
   \<and> (738895::int) - 2 \<le> 738895
   \<and> \<not> never ''id4''
   \<and> job_doc ''id4'' ''M'' ''2024-01-10'' \<notin> set (purge 738895 never [job_doc ''id4'' ''M'' ''2024-01-10''])"
proof -
  have h1: "job_doc ''id4'' ''M'' ''2024-01-10'' \<in> set [job_doc ''id4'' ''M'' ''2024-01-10'']" by simp
  have h2: "parse_date_safe (dict_get_default (doc_data (job_doc ''id4'' ''M'' ''2024-01-10'')) ''date-posted'' (PyStr []))
      = Some 738895" by code_simp
  have h3: "(738895::int) - 2 \<le> 738895" by simp
  have h4: "\<not> never (doc_id (job_doc ''id4'' ''M'' ''2024-01-10''))" by (simp add: never_def)
  show ?thesis
    using recent_record_deleted [where raises = never, OF h1 h2 h3 h4] h2 by (simp add: never_def)
qed

text \<open>
  C3, as amended. For a URL that passed the existence gate the loop body returns, and:
  after a failed scrape, or a posting without a company, the URL is appended to the
  processed URLs and no write was attempted; after a write that raised the URL is not
  appended and the file is as before; after a write that succeeded the URL is appended,
  and the mark is the last event, after the write and the notification.
\<close>

theorem seen_mark_after_failure:
  assumes gate: "job_exists_for_url (query_raises env) (jobs st) url = Inr False"
  shows "\<exists>st'. process_url env st url = Inr st' \<and>
     (scrape_for env url = ScrapeFailed \<longrightarrow>
        jobs st' = jobs st \<and> processed_file st' = processed_file st @ [strip url] \<and>
        new_events st st' = [GateQuery url, ScrapeCall url, MarkSeen url]) \<and>
     (\<forall>job. scrape_for env url = Scraped job \<longrightarrow>
        (company_missing job \<longrightarrow>
           jobs st' = jobs st \<and> processed_file st' = processed_file st @ [strip url] \<and>
           new_events st st' = [GateQuery url, ScrapeCall url, MarkSeen url]) \<and>
        (\<not> company_missing job \<and> add_raises env job \<longrightarrow>
           jobs st' = jobs st \<and> processed_file st' = processed_file st \<and>
           new_events st st' = [GateQuery url, ScrapeCall url, StoreAdd url]) \<and>
        (\<not> company_missing job \<and> \<not> add_raises env job \<longrightarrow>
           processed_file st' = processed_file st @ [strip url] \<and>
           new_events st st' = [GateQuery url, ScrapeCall url, StoreAdd url, NotifyCall url,
                                notify_log (notifier env job) url, MarkSeen url]))"
proof (cases "scrape_for env url")
  case Unsupported
  then show ?thesis using process_url_unsupported [OF gate] by simp
next
  case ScrapeFailed
  then show ?thesis using process_url_scrape_failed [OF gate] by (simp add: new_events_def)
next
  case (Scraped job)
  show ?thesis
  proof (cases "company_missing job")
    case True
    then show ?thesis using process_url_company_missing [OF gate Scraped] Scraped
      by (simp add: new_events_def)
  next
    case False
    note nm = this
    show ?thesis
    proof (cases "add_raises env job")
      case True
      then show ?thesis using process_url_write_fails [OF gate Scraped nm] Scraped nm
        by (simp add: new_events_def)
    next
      case False
      then show ?thesis using process_url_written [OF gate Scraped nm] Scraped nm
        by (simp add: new_events_def)
    qed
  qed
qed

theorem seen_mark_after_failure_witness:
  "job_exists_for_url (query_raises env_write_fails) (jobs st0) example_url = Inr False
   \<and> scrape_for env_write_fails example_url = Scraped example_job
   \<and> \<not> company_missing example_job \<and> add_raises env_write_fails example_job
   \<and> (\<exists>st'. process_url env_write_fails st0 example_url = Inr st' \<and>
           jobs st' = jobs st0 \<and> processed_file st' = processed_file st0 \<and>
           new_events st0 st' = [GateQuery example_url, ScrapeCall example_url, StoreAdd example_url])
   \<and> job_exists_for_url (query_raises env_na) (jobs st0) example_url = Inr False
   \<and> scrape_for env_na example_url = Scraped na_job \<and> company_missing na_job
   \<and> (\<exists>st'. process_url env_na st0 example_url = Inr st' \<and>
           jobs st' = jobs st0 \<and> processed_file st' = processed_file st0 @ [strip example_url] \<and>
           new_events st0 st' = [GateQuery example_url, ScrapeCall example_url, MarkSeen example_url])"
proof -
  have g1: "job_exists_for_url (query_raises env_write_fails) (jobs st0) example_url = Inr False"
    by (simp add: job_exists_for_url_def firestore_where_limit_def env_write_fails_def env_ok_def st0_def)
  have g2: "job_exists_for_url (query_raises env_na) (jobs st0) example_url = Inr False"
    by (simp add: job_exists_for_url_def firestore_where_limit_def env_na_def env_ok_def st0_def)
  have a: "add_raises env_write_fails example_job" by (simp add: env_write_fails_def)
  show ?thesis
    using seen_mark_after_failure [OF g1] seen_mark_after_failure [OF g2]
      g1 g2 a scrape_wf scrape_na company_example company_na
    by auto
qed

text \<open>
  C3 as stated fails on a store write failure: the handler of the \<^verbatim>\<open>try\<close> block only
  logs, and the file of processed URLs stays empty.
\<close>

theorem write_failure_not_marked_counterexample:
  "add_raises env_write_fails example_job
   \<and> process_url env_write_fails st0 example_url =
       Inr \<lparr> jobs = [], processed_file = [],
             trace = [GateQuery example_url, ScrapeCall example_url, StoreAdd example_url] \<rparr>"
proof -
  have g1: "job_exists_for_url (query_raises env_write_fails) (jobs st0) example_url = Inr False"
    by (simp add: job_exists_for_url_def firestore_where_limit_def env_write_fails_def env_ok_def st0_def)
  have a: "add_raises env_write_fails example_job" by (simp add: env_write_fails_def)
  show ?thesis
    using process_url_write_fails [OF g1 scrape_wf company_example a] a by (simp add: st0_def)
qed

text \<open>
  C4. When the query of the existence gate raises, \<^verbatim>\<open>job_exists_for_url\<close> returns
  \<^verbatim>\<open>False\<close>; when it does not, it returns whether some document of the collection has
  the URL as its \<^verbatim>\<open>moreInfoLink\<close>. In both cases it returns (\<open>Inr\<close>): no exception
  reaches the caller.
\<close>

theorem job_exists_for_url_fail_open:
  "(raises url \<longrightarrow> job_exists_for_url raises store url = Inr False) \<and>
   (\<not> raises url \<longrightarrow>
      job_exists_for_url raises store url =
        Inr (\<exists>d \<in> set store. doc_data d ''moreInfoLink'' = Some (PyStr url)))"
proof -
  have "filter (\<lambda>d. doc_data d ''moreInfoLink'' = Some (PyStr url)) store = [] \<longleftrightarrow>
        \<not> (\<exists>d \<in> set store. doc_data d ''moreInfoLink'' = Some (PyStr url))"
    by (simp add: filter_empty_conv)
  then show ?thesis
    by (cases "filter (\<lambda>d. doc_data d ''moreInfoLink'' = Some (PyStr url)) store")
       (auto simp: job_exists_for_url_def firestore_where_limit_def)
qed

theorem job_exists_for_url_fail_open_witness:
  "always ''L'' \<and> job_exists_for_url always scenario_docs ''L'' = Inr False
   \<and> \<not> never ''L'' \<and> job_exists_for_url never scenario_docs ''L'' = Inr True
   \<and> job_exists_for_url never scenario_docs ''K'' = Inr False"
proof -
  have a: "always ''L''" by (simp add: always_def)
  have n: "\<And>u. \<not> never u" by (simp add: never_def)
  have e1: "(\<exists>d \<in> set scenario_docs. doc_data d ''moreInfoLink'' = Some (PyStr ''L'')) = True"
    by (simp add: scenario_docs_def job_doc_def)
  have e2: "(\<exists>d \<in> set scenario_docs. doc_data d ''moreInfoLink'' = Some (PyStr ''K'')) = False"
    by (simp add: scenario_docs_def job_doc_def)
  show ?thesis
    using job_exists_for_url_fail_open [of always "''L''" scenario_docs]
      job_exists_for_url_fail_open [of never "''L''" scenario_docs]
      job_exists_for_url_fail_open [of never "''K''" scenario_docs] a n e1 e2
    by simp
qed

text \<open>
  C5. With the same \<open>now\<close> and the same behaviour of the store's deletions, a second
  purge cycle run on the result of the first leaves the collection as the first left it.
\<close>

theorem purge_idempotent:
  assumes dist: "distinct (map doc_id docs)"
  shows "purge now raises (purge now raises docs) = purge now raises docs"
proof -
  let ?P = "purge now raises docs"
  have dP: "distinct (map doc_id ?P)" using dist by (simp add: purge_filter distinct_map_filter)
  have sub: "set ?P \<subseteq> set docs" by (rule purge_subset)
  have keep: "\<And>d. d \<in> set ?P \<Longrightarrow> d \<in> set (purge now raises ?P)"
  proof -
    fix d assume d: "d \<in> set ?P"
    then have dd: "d \<in> set docs" using sub by auto
    show "d \<in> set (purge now raises ?P)"
      using d sub unfolding mem_purge_iff [OF dP d] mem_purge_iff [OF dist dd] by blast
  qed
  have "purge now raises ?P =
      filter (\<lambda>d. \<not> (doc_id d \<in> set (all_delete_ids now ?P) \<and> \<not> raises (doc_id d))) ?P"
    by (rule purge_filter)
  also have "\<dots> = ?P"
  proof (rule filter_True)
    show "\<forall>d \<in> set ?P. \<not> (doc_id d \<in> set (all_delete_ids now ?P) \<and> \<not> raises (doc_id d))"
    proof
      fix d assume d: "d \<in> set ?P"
      from keep [OF d] show "\<not> (doc_id d \<in> set (all_delete_ids now ?P) \<and> \<not> raises (doc_id d))"
        unfolding purge_filter [of now raises ?P] by simp
    qed
  qed
  finally show ?thesis .
qed

theorem purge_idempotent_witness:
  "distinct (map doc_id scenario_docs) \<and>
   purge 738946 never (purge 738946 never scenario_docs) = purge 738946 never scenario_docs \<and>
   map doc_id (purge 738946 never scenario_docs) = [''id1''] \<and>
   purge 738946 raises_id2 (purge 738946 raises_id2 scenario_docs) = purge 738946 raises_id2 scenario_docs \<and>
   map doc_id (purge 738946 raises_id2 scenario_docs) = [''id1'', ''id2'']"
proof -
  have h1: "distinct (map doc_id scenario_docs)" by code_simp
  have h6: "map doc_id (purge 738946 never scenario_docs) = [''id1'']" by code_simp
  have h7: "map doc_id (purge 738946 raises_id2 scenario_docs) = [''id1'', ''id2'']" by code_simp
  show ?thesis
    using purge_idempotent [OF h1, of 738946 never] purge_idempotent [OF h1, of 738946 raises_id2] h1 h6 h7
    by simp
qed

text \<open>
  C6, as amended. For \<^verbatim>\<open>months\<close> an integer or the parameter's default 1.5, the horizon of
  \<^verbatim>\<open>delete_old_jobs(months)\<close> is 30 days for each month: 45 days for the default, and 90
  days for the 3 that \<^verbatim>\<open>main\<close> passes. When \<open>now\<close> minus the horizon is a date that
  \<^verbatim>\<open>datetime\<close> can hold, the call removes exactly the documents whose \<^verbatim>\<open>date-posted\<close>
  parses and lies, at midnight, strictly before that cutoff, provided no \<^verbatim>\<open>date-posted\<close>
  is \<^verbatim>\<open>None\<close> and the store carries out the deletions. When the cutoff is no such date,
  the call raises \<^verbatim>\<open>OverflowError\<close> and removes nothing.
\<close>

theorem delete_old_jobs_exact:
  assumes now_lo: "1 \<le> fst now" and now_hi: "fst now \<le> date_max"
  shows "(1 \<le> fst now - horizon_days months \<and> fst now - horizon_days months \<le> date_max \<and>
          distinct (map doc_id docs) \<and>
          (\<forall>d \<in> set docs. dict_get_default (doc_data d) ''date-posted'' (PyStr []) \<noteq> PyNone) \<and>
          (\<forall>d \<in> set docs. \<not> raises (doc_id d)) \<longrightarrow>
            delete_old_jobs months now raises docs =
              (None, filter (\<lambda>d. \<not> older_than (fst now - horizon_days months, snd now) d) docs))
       \<and> (\<not> (1 \<le> fst now - horizon_days months \<and> fst now - horizon_days months \<le> date_max) \<longrightarrow>
            delete_old_jobs months now raises docs = (Some OverflowError, docs))
       \<and> horizon_days (MonthsInt k) = 30 * k
       \<and> horizon_days MonthsDefault = 45 \<and> horizon_days (MonthsInt 3) = 90"
proof -
  let ?h = "horizon_days months"
  let ?cut = "(fst now - ?h, snd now)"
  have exact: "delete_old_jobs months now raises docs = (None, filter (\<lambda>d. \<not> older_than ?cut d) docs)"
    if rng: "1 \<le> fst now - ?h" "fst now - ?h \<le> date_max"
      and dist: "distinct (map doc_id docs)"
      and nn: "\<forall>d \<in> set docs. dict_get_default (doc_data d) ''date-posted'' (PyStr []) \<noteq> PyNone"
      and nr: "\<forall>d \<in> set docs. \<not> raises (doc_id d)"
  proof -
    have inj: "inj_on doc_id (set docs)" using dist by (simp add: distinct_map)
    have "delete_old_jobs months now raises docs =
          (None, fst (snd (delete_old_loop raises ?cut docs (docs, 0, 0))))"
      unfolding delete_old_jobs_def by (rule delete_old_jobs_days_in_range [OF now_lo now_hi rng])
    also have "fst (snd (delete_old_loop raises ?cut docs (docs, 0, 0))) =
          filter (\<lambda>x. doc_id x \<notin> doc_id ` {e \<in> set docs. older_than ?cut e}) docs"
      by (rule delete_old_loop_exact [OF nn nr])
    also have "\<dots> = filter (\<lambda>d. \<not> older_than ?cut d) docs"
      using inj by (intro filter_cong) (auto dest: inj_onD)
    finally show ?thesis .
  qed
  have over: "delete_old_jobs months now raises docs = (Some OverflowError, docs)"
    if "\<not> (1 \<le> fst now - ?h \<and> fst now - ?h \<le> date_max)"
    unfolding delete_old_jobs_def using that by (rule delete_old_jobs_days_out_of_range)
  have h3: "horizon_days (MonthsInt 3) = 90" by (simp add: horizon_days_int)
  show ?thesis using exact over horizon_days_int [of k] horizon_default h3 by blast
qed

text \<open>
  The run on 1 March 2024 with the horizon of \<^verbatim>\<open>main\<close>, with the default, and with
  30000 months, whose cutoff lies before the year 1.
\<close>

theorem delete_old_jobs_exact_witness:
  "(1::int) \<le> 738946 \<and> 738946 \<le> date_max \<and> distinct (map doc_id age_docs)
   \<and> fst (delete_old_jobs (MonthsInt 3) (738946, 0) never age_docs) = None
   \<and> map doc_id (snd (delete_old_jobs (MonthsInt 3) (738946, 0) never age_docs)) = [''a'', ''c'']
   \<and> fst (delete_old_jobs MonthsDefault (738946, 0) never age_docs) = None
   \<and> map doc_id (snd (delete_old_jobs MonthsDefault (738946, 0) never age_docs)) = [''c'']
   \<and> delete_old_jobs (MonthsInt 30000) (738946, 0) never age_docs = (Some OverflowError, age_docs)
   \<and> horizon_days MonthsDefault = 45 \<and> horizon_days (MonthsInt 3) = 90"
proof -
  have n1: "1 \<le> fst (738946::int, 0::nat)" by simp
  have n2: "fst (738946::int, 0::nat) \<le> date_max" by (simp add: date_max_value)
  have h1: "distinct (map doc_id age_docs)" by code_simp
  have h2: "\<forall>d \<in> set age_docs. dict_get_default (doc_data d) ''date-posted'' (PyStr []) \<noteq> PyNone"
    by (simp add: age_docs_def job_doc_def dict_get_default_def)
  have h3: "\<forall>d \<in> set age_docs. \<not> never (doc_id d)" by (simp add: never_def)
  have f1: "map doc_id (filter (\<lambda>d. \<not> older_than (738946 - 90, 0) d) age_docs) = [''a'', ''c'']"
    by code_simp
  have f2: "map doc_id (filter (\<lambda>d. \<not> older_than (738946 - 45, 0) d) age_docs) = [''c'']"
    by code_simp
  have v3: "horizon_days (MonthsInt 3) = 90" and v30000: "horizon_days (MonthsInt 30000) = 900000"
    by (simp_all add: horizon_days_int)
  note t = delete_old_jobs_exact [OF n1 n2, where raises = never and docs = age_docs]
  show ?thesis
    using t [of "MonthsInt 3"] t [of MonthsDefault] t [of "MonthsInt 30000"]
      h1 h2 h3 f1 f2 v3 v30000 horizon_default
    by (simp add: date_max_value)
qed

text \<open>
  C6 as stated fails on the default: called without an argument on 1 March 2024 (the
  day 738946), the cleanup removes a document that is 60 days old, since the horizon is
  45 days and not about 90.
\<close>

theorem default_horizon_counterexample:
  "horizon_days MonthsDefault = 45
   \<and> parse_date_safe (dict_get_default (doc_data (job_doc ''old'' ''L'' ''2024-01-01'')) ''date-posted'' (PyStr []))
       = Some (738946 - 60)
   \<and> fst (delete_old_jobs MonthsDefault (738946, 0) never [job_doc ''old'' ''L'' ''2024-01-01'']) = None
   \<and> map doc_id (snd (delete_old_jobs MonthsDefault (738946, 0) never [job_doc ''old'' ''L'' ''2024-01-01''])) = []"
  by code_simp

text \<open>
  C7, as amended. For a URL that passed the existence gate and whose scrape returned a
  posting: when the company, stripped, is neither empty nor the placeholder \<^verbatim>\<open>N/A\<close> in
  any letter case, and the write does not raise, the collection grows by exactly the
  scraped posting and the URL is appended to the processed URLs; when the company is
  missing, empty or the placeholder, the collection is unchanged.
\<close>

theorem admission_inserts_valid_record:
  assumes gate: "job_exists_for_url (query_raises env) (jobs st) url = Inr False"
    and scr: "scrape_for env url = Scraped job"
  shows "\<exists>st'. process_url env st url = Inr st' \<and>
     (\<not> company_missing job \<and> \<not> add_raises env job \<longrightarrow>
        jobs st' = jobs st @ [\<lparr> doc_id = new_doc_id env (jobs st), doc_data = job \<rparr>] \<and>
        processed_file st' = processed_file st @ [strip url]) \<and>
     (company_missing job \<longrightarrow> jobs st' = jobs st) \<and>
     (company_missing job \<longleftrightarrow>
        strip (or_empty (dict_get job ''company'')) = [] \<or>
        upper (strip (or_empty (dict_get job ''company''))) = ''N/A'')"
proof -
  have cm: "company_missing job \<longleftrightarrow>
        strip (or_empty (dict_get job ''company'')) = [] \<or>
        upper (strip (or_empty (dict_get job ''company''))) = ''N/A''"
    by (simp add: company_missing_def Let_def)
  show ?thesis
  proof (cases "company_missing job")
    case True
    then show ?thesis using process_url_company_missing [OF gate scr] cm by simp
  next
    case False
    note nm = this
    show ?thesis
    proof (cases "add_raises env job")
      case True
      then show ?thesis using process_url_write_fails [OF gate scr nm] nm cm by simp
    next
      case False
      then show ?thesis using process_url_written [OF gate scr nm] nm cm by simp
    qed
  qed
qed

theorem admission_inserts_valid_record_witness:
  "job_exists_for_url (query_raises env_ok) (jobs st0) example_url = Inr False
   \<and> scrape_for env_ok example_url = Scraped example_job
   \<and> \<not> company_missing example_job \<and> \<not> add_raises env_ok example_job
   \<and> (\<exists>st'. process_url env_ok st0 example_url = Inr st' \<and>
         jobs st' = [\<lparr> doc_id = ''new'', doc_data = example_job \<rparr>] \<and>
         processed_file st' = [example_url])"
proof -
  have g: "job_exists_for_url (query_raises env_ok) (jobs st0) example_url = Inr False"
    by (simp add: st0_def gate_st0)
  have a: "\<not> add_raises env_ok example_job" by (simp add: env_ok_def)
  have i: "new_doc_id env_ok (jobs st0) = ''new''" by (simp add: env_ok_def)
  have s: "jobs st0 = []" "processed_file st0 = []" by (simp_all add: st0_def)
  show ?thesis
    using admission_inserts_valid_record [OF g scrape_ok] g a i s scrape_ok company_example strip_example
    by auto
qed

text \<open>
  C7 as stated fails for the company \<^verbatim>\<open>N/A\<close>, which is not empty: nothing is inserted,
  and the URL is marked as processed.
\<close>

theorem placeholder_company_counterexample:
  "or_empty (dict_get na_job ''company'') = ''N/A''
   \<and> process_url env_na st0 example_url =
       Inr \<lparr> jobs = [], processed_file = [example_url],
             trace = [GateQuery example_url, ScrapeCall example_url, MarkSeen example_url] \<rparr>"
proof -
  have g2: "job_exists_for_url (query_raises env_na) (jobs st0) example_url = Inr False"
    by (simp add: job_exists_for_url_def firestore_where_limit_def env_na_def env_ok_def st0_def)
  have c: "or_empty (dict_get na_job ''company'') = ''N/A''"
    by (simp add: na_job_def dict_get_def or_empty_def)
  show ?thesis
    using process_url_company_missing [OF g2 scrape_na company_na] c strip_example
    by (simp add: st0_def)
qed

text \<open>
  C8. A URL that the file of processed URLs holds when the run starts gets no query of
  the existence gate, no scrape and no write attempt in the run, which returns.
\<close>

theorem seen_identifier_untouched:
  assumes "url \<in> set (load_processed_urls (processed_file st))"
  shows "\<exists>st'. main_admission env st all_urls = Inr st' \<and>
           GateQuery url \<notin> set (new_events st st') \<and>
           ScrapeCall url \<notin> set (new_events st st') \<and>
           StoreAdd url \<notin> set (new_events st st')"
proof -
  let ?new = "filter (\<lambda>u. u \<notin> set (load_processed_urls (processed_file st))) all_urls"
  have notin: "url \<notin> set ?new" using assms by simp
  show ?thesis
  proof (cases "all_urls = [] \<or> ?new = []")
    case True
    then have "main_admission env st all_urls = Inr st" by (auto simp: main_admission_def Let_def)
    then show ?thesis by (simp add: new_events_def)
  next
    case False
    then have run: "main_admission env st all_urls = process_all env st ?new"
      by (auto simp: main_admission_def Let_def)
    obtain st' evs where r: "process_all env st ?new = Inr st'" "trace st' = trace st @ evs"
      "\<forall>e \<in> set evs. event_url e \<in> set ?new"
      using process_all_trace by blast
    have ne: "new_events st st' = evs" using r(2) by (rule new_events_append)
    have "\<And>e. e \<in> set evs \<Longrightarrow> event_url e \<noteq> url" using r(3) notin by metis
    then have "GateQuery url \<notin> set evs" "ScrapeCall url \<notin> set evs" "StoreAdd url \<notin> set evs"
      by force+
    then show ?thesis using run r(1) ne by simp
  qed
qed

theorem seen_identifier_untouched_witness:
  "example_url \<in> set (load_processed_urls (processed_file st_seen))
   \<and> (\<exists>st'. main_admission env_ok st_seen [example_url, other_url] = Inr st' \<and>
           GateQuery example_url \<notin> set (new_events st_seen st') \<and>
           ScrapeCall example_url \<notin> set (new_events st_seen st') \<and>
           StoreAdd example_url \<notin> set (new_events st_seen st'))
   \<and> main_admission env_ok st_seen [example_url, other_url] =
     Inr \<lparr> jobs = [\<lparr> doc_id = ''new'', doc_data = example_job \<rparr>],
           processed_file = [example_url, other_url],
           trace = [GateQuery other_url, ScrapeCall other_url, StoreAdd other_url,
                    NotifyCall other_url, LogNotified other_url, MarkSeen other_url] \<rparr>"
  using seen_identifier_untouched [OF seen_st_seen, of env_ok "[example_url, other_url]"] seen_st_seen run_seen
  by simp

text \<open>
  C9. After a successful insert (the URL passed the gate, the posting has a company, the
  write did not raise), whatever the notifier does (\<open>n\<close> may return \<^verbatim>\<open>True\<close>, \<^verbatim>\<open>False\<close>
  or raise): the notifier was called exactly once for the URL, the collection is the old
  one followed by the scraped posting, unaltered, and the URL is appended to the
  processed URLs.
\<close>

theorem notifier_failure_harmless:
  assumes gate: "job_exists_for_url (query_raises env) (jobs st) url = Inr False"
    and scr: "scrape_for env url = Scraped job"
    and valid: "\<not> company_missing job"
    and written: "\<not> add_raises env job"
  shows "\<exists>st'. process_url (env\<lparr>notifier := n\<rparr>) st url = Inr st' \<and>
           jobs st' = jobs st @ [\<lparr> doc_id = new_doc_id env (jobs st), doc_data = job \<rparr>] \<and>
           processed_file st' = processed_file st @ [strip url] \<and>
           length (filter (\<lambda>e. e = NotifyCall url) (new_events st st')) = 1"
proof -
  let ?env = "env\<lparr>notifier := n\<rparr>"
  have g: "job_exists_for_url (query_raises ?env) (jobs st) url = Inr False" using gate by simp
  have s: "scrape_for ?env url = Scraped job" using scr by simp
  have w: "\<not> add_raises ?env job" using written by simp
  have l: "notify_log (n job) url \<noteq> NotifyCall url"
    by (simp add: notify_log_def split: sum.splits bool.splits)
  show ?thesis using process_url_written [OF g s valid w] l by (simp add: new_events_def)
qed

theorem notifier_failure_harmless_witness:
  "job_exists_for_url (query_raises env_ok) (jobs st0) example_url = Inr False
   \<and> scrape_for env_ok example_url = Scraped example_job
   \<and> \<not> company_missing example_job \<and> \<not> add_raises env_ok example_job
   \<and> (\<exists>st'. process_url (env_ok\<lparr>notifier := notifier_raises\<rparr>) st0 example_url = Inr st' \<and>
         jobs st' = [\<lparr> doc_id = ''new'', doc_data = example_job \<rparr>] \<and>
         processed_file st' = [example_url] \<and>
         length (filter (\<lambda>e. e = NotifyCall example_url) (new_events st0 st')) = 1)
   \<and> (\<exists>st'. process_url (env_ok\<lparr>notifier := send_onesignal_notification_for_job (\<lambda>j. HttpStatus 500)\<rparr>) st0 example_url = Inr st' \<and>
         jobs st' = [\<lparr> doc_id = ''new'', doc_data = example_job \<rparr>] \<and>
         processed_file st' = [example_url] \<and>
         length (filter (\<lambda>e. e = NotifyCall example_url) (new_events st0 st')) = 1)"
proof -
  have g: "job_exists_for_url (query_raises env_ok) (jobs st0) example_url = Inr False"
    by (simp add: st0_def gate_st0)
  have a: "\<not> add_raises env_ok example_job" by (simp add: env_ok_def)
  have i: "new_doc_id env_ok (jobs st0) = ''new''" by (simp add: env_ok_def)
  have s: "jobs st0 = []" "processed_file st0 = []" by (simp_all add: st0_def)
  show ?thesis
    using notifier_failure_harmless [OF g scrape_ok company_example a, of notifier_raises]
      notifier_failure_harmless [OF g scrape_ok company_example a,
        of "send_onesignal_notification_for_job (\<lambda>j. HttpStatus 500)"]
      g a i s scrape_ok company_example strip_example
    by auto
qed

text \<open>
  C10. A document whose \<^verbatim>\<open>date-posted\<close> is missing, \<^verbatim>\<open>None\<close>, empty or does not parse
  (\<^const>\<open>parse_date_safe\<close> gives nothing for it) is never recent for the purge cycle, is
  still in the collection after \<^verbatim>\<open>delete_old_jobs\<close>, whatever the horizon in days (and so
  whatever the argument), the time and the store's behaviour, also when the call raises,
  and when a purge cycle removes it, it has a link and another
  document of that link, not recent, comes before it in the sort order: it is a
  duplicate that is not the survivor of its group.
\<close>

theorem unparsable_date_exempt:
  assumes dist: "distinct (map doc_id docs)"
    and mem: "d \<in> set docs"
    and unk: "parse_date_safe (dict_get_default (doc_data d) ''date-posted'' (PyStr [])) = None"
  shows "\<not> info_is_recent (doc_info now d)
       \<and> d \<in> set (snd (delete_old_jobs_days days now' raises' docs))
       \<and> d \<in> set (snd (delete_old_jobs months now' raises' docs))
       \<and> (d \<notin> set (purge now raises docs) \<longrightarrow>
            info_link (doc_info now d) \<noteq> [] \<and>
            (\<exists>e \<in> set docs. e \<noteq> d \<and> \<not> info_is_recent (doc_info now e) \<and>
                info_link (doc_info now e) = info_link (doc_info now d) \<and>
                sort_key_of (doc_info now e) < sort_key_of (doc_info now d)))"
proof -
  have nr: "\<not> info_is_recent (doc_info now d)" using unk by (simp add: is_recent_iff)
  have inj: "inj_on doc_id (set docs)" using dist by (simp add: distinct_map)
  have no: "\<And>cutoff. \<not> older_than cutoff d" using unk by (simp add: older_than_def)
  have "\<And>cutoff. \<forall>e \<in> set docs. doc_id e = doc_id d \<longrightarrow> \<not> older_than cutoff e"
    using inj mem no by (auto dest: inj_onD)
  then have stays: "\<And>n. d \<in> set (snd (delete_old_jobs_days n now' raises' docs))"
    by (intro delete_old_jobs_days_keeps mem)
  have stays': "d \<in> set (snd (delete_old_jobs months now' raises' docs))"
    unfolding delete_old_jobs_def by (rule stays)
  have dup: "d \<notin> set (purge now raises docs) \<longrightarrow>
            info_link (doc_info now d) \<noteq> [] \<and>
            (\<exists>e \<in> set docs. e \<noteq> d \<and> \<not> info_is_recent (doc_info now e) \<and>
                info_link (doc_info now e) = info_link (doc_info now d) \<and>
                sort_key_of (doc_info now e) < sort_key_of (doc_info now d))"
    unfolding mem_purge_iff [OF dist mem] using nr by auto
  show ?thesis using nr stays stays' dup by blast
qed

theorem unparsable_date_exempt_witness:
  "parse_date_safe (dict_get_default (doc_data (job_doc ''id3'' ''L'' ''unknown'')) ''date-posted'' (PyStr [])) = None
   \<and> \<not> info_is_recent (doc_info 738946 (job_doc ''id3'' ''L'' ''unknown''))
   \<and> job_doc ''id3'' ''L'' ''unknown'' \<in> set (snd (delete_old_jobs_days 90 (738946, 0) never scenario_docs))
   \<and> job_doc ''id3'' ''L'' ''unknown'' \<in> set (snd (delete_old_jobs (MonthsInt 3) (738946, 0) never scenario_docs))
   \<and> job_doc ''id3'' ''L'' ''unknown'' \<notin> set (purge 738946 never scenario_docs)
   \<and> (\<exists>e \<in> set scenario_docs. e \<noteq> job_doc ''id3'' ''L'' ''unknown'' \<and> \<not> info_is_recent (doc_info 738946 e) \<and>
         info_link (doc_info 738946 e) = info_link (doc_info 738946 (job_doc ''id3'' ''L'' ''unknown'')) \<and>
         sort_key_of (doc_info 738946 e) < sort_key_of (doc_info 738946 (job_doc ''id3'' ''L'' ''unknown'')))"
proof -
  let ?d = "job_doc ''id3'' ''L'' ''unknown''"
  have h1: "distinct (map doc_id scenario_docs)" by code_simp
  have h2: "?d \<in> set scenario_docs" by (simp add: scenario_docs_def)
  have h3: "parse_date_safe (dict_get_default (doc_data ?d) ''date-posted'' (PyStr [])) = None"
    by code_simp
  have ids: "map doc_id (purge 738946 never scenario_docs) = [''id1'']" by code_simp
  have gone: "?d \<notin> set (purge 738946 never scenario_docs)"
  proof
    assume "?d \<in> set (purge 738946 never scenario_docs)"
    then have "doc_id ?d \<in> set (map doc_id (purge 738946 never scenario_docs))" by simp
    then show False unfolding ids by (simp add: job_doc_def)
  qed
  show ?thesis
    using unparsable_date_exempt [OF h1 h2 h3, where now = 738946 and days = 90
        and months = "MonthsInt 3" and now' = "(738946, 0)" and raises' = never and raises = never]
      h3 gone
    by blast
qed

end
